theory Spec2Isabelle
  imports Main "HOL-Library.Word"
begin

unbundle bit_operations_syntax

section \<open>The MRG32k3a host generator and its kernels (mrg32k3a.hpp)\<close>

text \<open>
  The file under verification holds three device kernels (\<open>init_engines_kernel\<close>,
  \<open>generate_kernel\<close>, \<open>generate_normal_kernel\<close>) and the host class
  \<open>rocrand_mrg32k3a\<close> that launches them. Integer types are the source's:
  \<open>unsigned int\<close> is \<open>32 word\<close>, \<open>size_t\<close> and \<open>unsigned long long\<close> are \<open>64 word\<close>.
\<close>

subsection \<open>What the file takes from other headers\<close>

text \<open>
  The engine class \<open>mrg32k3a_device_engine\<close> (device_engines.hpp), the distribution
  functors and the Poisson manager (distributions.hpp) and the macro
  \<open>ROCRAND_MRG32K3A_DEFAULT_SEED\<close> are not defined in this file. The kernels use the
  engine only through its constructor \<open>engine(seed, subsequence, offset)\<close> and its call
  operator, so both are parameters of the model: \<open>engine_ctor\<close> and \<open>engine_next\<close>, the
  latter returning the raw draw together with the advanced state.

  \<open>nth_state e c\<close> is the engine state after \<open>c\<close> draws from \<open>e\<close>, and \<open>nth_draw e c\<close> the
  draw number \<open>c\<close> (counted from 0) of the substream that starts at \<open>e\<close>.
\<close>

fun nth_state :: "('e \<Rightarrow> 'r \<times> 'e) \<Rightarrow> 'e \<Rightarrow> nat \<Rightarrow> 'e" where
  "nth_state engine_next e 0 = e"
| "nth_state engine_next e (Suc c) = nth_state engine_next (snd (engine_next e)) c"

definition nth_draw :: "('e \<Rightarrow> 'r \<times> 'e) \<Rightarrow> 'e \<Rightarrow> nat \<Rightarrow> 'r" where
  "nth_draw engine_next e c = fst (engine_next (nth_state engine_next e c))"

subsection \<open>Launch geometry\<close>

text \<open>
  A launch \<open>hipLaunchKernelGGL(kernel, dim3(blocks), dim3(threads), ...)\<close> runs the kernel
  body once for every pair of a block index below \<open>hipGridDim_x\<close> and a thread index
  below \<open>hipBlockDim_x\<close>. Device arrays are stores from element offsets to values.

  Every thread of the three kernels reads and writes \<open>engines[engine_id]\<close> only, and the
  output slots a thread writes are written by no other thread, so the threads of one
  launch do not interfere; the model runs them one after the other, in the order of
  \<open>thread_ids\<close>. A thread that never leaves its loop has the value \<open>None\<close>, and so has
  the launch it belongs to.
\<close>

definition thread_ids :: "32 word \<Rightarrow> 32 word \<Rightarrow> (32 word \<times> 32 word) list" where
  "thread_ids hipGridDim_x hipBlockDim_x =
     concat (map (\<lambda>b. map (\<lambda>t. (word_of_nat b, word_of_nat t)) [0..<unat hipBlockDim_x])
               [0..<unat hipGridDim_x])"

fun run_threads :: "('i \<Rightarrow> 's \<Rightarrow> 's option) \<Rightarrow> 'i list \<Rightarrow> 's \<Rightarrow> 's option" where
  "run_threads body [] s = Some s"
| "run_threads body (i # is) s =
     (case body i s of None \<Rightarrow> None | Some s' \<Rightarrow> run_threads body is s')"

subsection \<open>init_engines_kernel\<close>

definition init_engines_kernel_thread ::
  "(64 word \<Rightarrow> 32 word \<Rightarrow> 64 word \<Rightarrow> 'e) \<Rightarrow> 32 word \<Rightarrow> 32 word \<times> 32 word
     \<Rightarrow> 64 word \<Rightarrow> 64 word \<Rightarrow> (nat \<Rightarrow> 'e) \<Rightarrow> (nat \<Rightarrow> 'e)" where
  "init_engines_kernel_thread engine_ctor hipBlockDim_x tid seed offset engines =
     (case tid of (hipBlockIdx_x, hipThreadIdx_x) \<Rightarrow>
        let engine_id = hipBlockIdx_x * hipBlockDim_x + hipThreadIdx_x
        in engines(unat engine_id := engine_ctor seed engine_id offset))"

definition init_engines_kernel ::
  "(64 word \<Rightarrow> 32 word \<Rightarrow> 64 word \<Rightarrow> 'e) \<Rightarrow> 32 word \<Rightarrow> 32 word
     \<Rightarrow> (nat \<Rightarrow> 'e) \<Rightarrow> 64 word \<Rightarrow> 64 word \<Rightarrow> (nat \<Rightarrow> 'e)" where
  "init_engines_kernel engine_ctor hipGridDim_x hipBlockDim_x engines seed offset =
     fold (\<lambda>tid. init_engines_kernel_thread engine_ctor hipBlockDim_x tid seed offset)
       (thread_ids hipGridDim_x hipBlockDim_x) engines"

subsection \<open>generate_kernel\<close>

text \<open>
  The loop \<open>while(index < n) { data[index] = distribution(engine()); index += stride; }\<close>.
  \<open>index\<close> and \<open>stride\<close> are \<open>unsigned int\<close>, so \<open>index += stride\<close> wraps at \<open>2 ^ 32\<close>; the
  comparison with the \<open>size_t n\<close> converts \<open>index\<close> to 64 bits.
\<close>

partial_function (option) generate_loop ::
  "('e \<Rightarrow> 'r \<times> 'e) \<Rightarrow> ('r \<Rightarrow> 't) \<Rightarrow> 64 word \<Rightarrow> 32 word \<Rightarrow> 32 word \<Rightarrow> 'e \<Rightarrow> (nat \<Rightarrow> 't)
     \<Rightarrow> ('e \<times> (nat \<Rightarrow> 't)) option"
where
  "generate_loop engine_next distribution n stride index engine data =
     (if ucast index < n
      then (case engine_next engine of
              (r, engine') \<Rightarrow>
                generate_loop engine_next distribution n stride (index + stride) engine'
                  (data(unat index := distribution r)))
      else Some (engine, data))"

definition generate_kernel_thread ::
  "('e \<Rightarrow> 'r \<times> 'e) \<Rightarrow> 32 word \<Rightarrow> 32 word \<Rightarrow> 64 word \<Rightarrow> ('r \<Rightarrow> 't) \<Rightarrow> 32 word \<times> 32 word
     \<Rightarrow> (nat \<Rightarrow> 'e) \<times> (nat \<Rightarrow> 't) \<Rightarrow> ((nat \<Rightarrow> 'e) \<times> (nat \<Rightarrow> 't)) option" where
  "generate_kernel_thread engine_next hipGridDim_x hipBlockDim_x n distribution tid mem =
     (case (tid, mem) of ((hipBlockIdx_x, hipThreadIdx_x), (engines, data)) \<Rightarrow>
        let engine_id = hipBlockIdx_x * hipBlockDim_x + hipThreadIdx_x;
            index = engine_id;
            stride = hipGridDim_x * hipBlockDim_x;
            engine = engines (unat engine_id)
        in (case generate_loop engine_next distribution n stride index engine data of
              None \<Rightarrow> None
            | Some (engine', data') \<Rightarrow> Some (engines(unat engine_id := engine'), data')))"

definition generate_kernel ::
  "('e \<Rightarrow> 'r \<times> 'e) \<Rightarrow> 32 word \<Rightarrow> 32 word \<Rightarrow> (nat \<Rightarrow> 'e) \<Rightarrow> (nat \<Rightarrow> 't) \<Rightarrow> 64 word \<Rightarrow> ('r \<Rightarrow> 't)
     \<Rightarrow> ((nat \<Rightarrow> 'e) \<times> (nat \<Rightarrow> 't)) option" where
  "generate_kernel engine_next hipGridDim_x hipBlockDim_x engines data n distribution =
     run_threads (generate_kernel_thread engine_next hipGridDim_x hipBlockDim_x n distribution)
       (thread_ids hipGridDim_x hipBlockDim_x) (engines, data)"

subsection \<open>generate_normal_kernel\<close>

text \<open>
  \<open>data2\<close> is \<open>data\<close> seen as an array of pairs: \<open>data2[index]\<close> is the two slots
  \<open>data[2 * index]\<close> and \<open>data[2 * index + 1]\<close>, the address being computed in 64 bits.
  The two arguments of \<open>distribution(engine(), engine())\<close> are two consecutive draws; the
  model passes them in the order they are drawn.
\<close>

partial_function (option) generate_normal_loop ::
  "('e \<Rightarrow> 'r \<times> 'e) \<Rightarrow> ('r \<Rightarrow> 'r \<Rightarrow> 't \<times> 't) \<Rightarrow> 64 word \<Rightarrow> 32 word \<Rightarrow> 32 word \<Rightarrow> 'e
     \<Rightarrow> (nat \<Rightarrow> 't) \<Rightarrow> ('e \<times> (nat \<Rightarrow> 't)) option"
where
  "generate_normal_loop engine_next distribution n stride index engine data =
     (if ucast index < n div 2
      then (case engine_next engine of
              (r1, engine1) \<Rightarrow>
                (case engine_next engine1 of
                   (r2, engine2) \<Rightarrow>
                     (case distribution r1 r2 of
                        (x, y) \<Rightarrow>
                          generate_normal_loop engine_next distribution n stride
                            (index + stride) engine2
                            (data(2 * unat index := x, 2 * unat index + 1 := y)))))
      else Some (engine, data))"

definition generate_normal_tail ::
  "('e \<Rightarrow> 'r \<times> 'e) \<Rightarrow> ('r \<Rightarrow> 'r \<Rightarrow> 't \<times> 't) \<Rightarrow> 64 word \<Rightarrow> 32 word \<Rightarrow> 'e \<times> (nat \<Rightarrow> 't)
     \<Rightarrow> 'e \<times> (nat \<Rightarrow> 't)" where
  "generate_normal_tail engine_next distribution n engine_id s =
     (case s of (engine, data) \<Rightarrow>
        if engine_id = 0 \<and> (n AND 1) > 0
        then (case engine_next engine of
                (r1, engine1) \<Rightarrow>
                  (case engine_next engine1 of
                     (r2, engine2) \<Rightarrow>
                       let result = distribution r1 r2
                       in (engine2, data(unat (n - 1) := fst result))))
        else (engine, data))"

definition generate_normal_kernel_thread ::
  "('e \<Rightarrow> 'r \<times> 'e) \<Rightarrow> 32 word \<Rightarrow> 32 word \<Rightarrow> 64 word \<Rightarrow> ('r \<Rightarrow> 'r \<Rightarrow> 't \<times> 't)
     \<Rightarrow> 32 word \<times> 32 word
     \<Rightarrow> (nat \<Rightarrow> 'e) \<times> (nat \<Rightarrow> 't) \<Rightarrow> ((nat \<Rightarrow> 'e) \<times> (nat \<Rightarrow> 't)) option" where
  "generate_normal_kernel_thread engine_next hipGridDim_x hipBlockDim_x n distribution tid mem =
     (case (tid, mem) of ((hipBlockIdx_x, hipThreadIdx_x), (engines, data)) \<Rightarrow>
        let engine_id = hipBlockIdx_x * hipBlockDim_x + hipThreadIdx_x;
            index = engine_id;
            stride = hipGridDim_x * hipBlockDim_x;
            engine = engines (unat engine_id)
        in (case generate_normal_loop engine_next distribution n stride index engine data of
              None \<Rightarrow> None
            | Some swept \<Rightarrow>
                (case generate_normal_tail engine_next distribution n engine_id swept of
                   (engine', data') \<Rightarrow> Some (engines(unat engine_id := engine'), data'))))"

definition generate_normal_kernel ::
  "('e \<Rightarrow> 'r \<times> 'e) \<Rightarrow> 32 word \<Rightarrow> 32 word \<Rightarrow> (nat \<Rightarrow> 'e) \<Rightarrow> (nat \<Rightarrow> 't) \<Rightarrow> 64 word
     \<Rightarrow> ('r \<Rightarrow> 'r \<Rightarrow> 't \<times> 't) \<Rightarrow> ((nat \<Rightarrow> 'e) \<times> (nat \<Rightarrow> 't)) option" where
  "generate_normal_kernel engine_next hipGridDim_x hipBlockDim_x engines data n distribution =
     run_threads
       (generate_normal_kernel_thread engine_next hipGridDim_x hipBlockDim_x n distribution)
       (thread_ids hipGridDim_x hipBlockDim_x) (engines, data)"


section \<open>The host class rocrand_mrg32k3a\<close>

subsection \<open>Statuses, runtime answers and launch configuration\<close>

text \<open>
  \<open>rocrand_status\<close> is declared in rocrand.h. The values this file names are constructors;
  \<open>ROCRAND_STATUS_other\<close> stands for every other value of the enumeration (a status that
  \<open>poisson.set_lambda\<close> may throw). \<open>hipError_t\<close> likewise: \<open>hipSuccess\<close> or any other code.

  The answers of the HIP runtime are inputs of the model: what \<open>hipMalloc\<close> returns, and
  what \<open>hipPeekAtLastError()\<close> returns after a launch. A launch that the runtime refuses
  runs no thread, and one that it accepts runs all of them before the next operation on
  the same stream.
\<close>

datatype rocrand_status =
    ROCRAND_STATUS_SUCCESS
  | ROCRAND_STATUS_ALLOCATION_FAILED
  | ROCRAND_STATUS_LAUNCH_FAILURE
  | ROCRAND_STATUS_other nat

datatype hipError_t = hipSuccess | hipError nat

text \<open>
  The two branches of \<open>#ifdef __HIP_PLATFORM_NVCC__\<close>, identical in \<open>init\<close> and in every
  \<open>generate\<close> function: the block size \<open>threads\<close> and the grid size \<open>max_blocks\<close>.
\<close>

datatype platform = HIP_PLATFORM_HCC | HIP_PLATFORM_NVCC

fun threads :: "platform \<Rightarrow> 32 word" where
  "threads HIP_PLATFORM_NVCC = 128"
| "threads HIP_PLATFORM_HCC = 256"

fun max_blocks :: "platform \<Rightarrow> 32 word" where
  "max_blocks HIP_PLATFORM_NVCC = 128"
| "max_blocks HIP_PLATFORM_HCC = 1024"

subsection \<open>The generator object\<close>

text \<open>
  \<open>m_seed\<close>, \<open>m_offset\<close> and \<open>m_stream\<close> are the members of the base class
  \<open>rocrand_generator_type\<close> (generator_type.hpp), whose constructor stores its three
  arguments. \<open>m_engines\<close> is the device allocation, \<open>poisson\<close> the state of the
  \<open>poisson_distribution_manager\<close>.
\<close>

record ('e, 'p) rocrand_mrg32k3a =
  m_seed :: "64 word"
  m_offset :: "64 word"
  m_stream :: nat
  m_engines_initialized :: bool
  m_engines :: "nat \<Rightarrow> 'e"
  m_engines_size :: "64 word"
  poisson :: 'p

text \<open>
  The constructor. \<open>default_seed\<close> is the value of the macro
  \<open>ROCRAND_MRG32K3A_DEFAULT_SEED\<close>; \<open>hipMalloc_result\<close> is the runtime's answer and the
  (arbitrary) content of the fresh allocation; \<open>poisson0\<close> is the default-constructed
  Poisson manager. A thrown status is \<open>Inl\<close>.
\<close>

definition rocrand_mrg32k3a_ctor ::
  "64 word \<Rightarrow> hipError_t \<times> (nat \<Rightarrow> 'e) \<Rightarrow> 'p \<Rightarrow> 64 word \<Rightarrow> 64 word \<Rightarrow> nat
     \<Rightarrow> rocrand_status + ('e, 'p) rocrand_mrg32k3a" where
  "rocrand_mrg32k3a_ctor default_seed hipMalloc_result poisson0 seed offset stream =
     (let this = \<lparr>m_seed = seed, m_offset = offset, m_stream = stream,
                   m_engines_initialized = False, m_engines = snd hipMalloc_result,
                   m_engines_size = 1024 * 256, poisson = poisson0\<rparr>;
          error = fst hipMalloc_result
      in if error \<noteq> hipSuccess then Inl ROCRAND_STATUS_ALLOCATION_FAILED
         else if m_seed this = 0 then Inr (this\<lparr>m_seed := default_seed\<rparr>)
         else Inr this)"

definition reset :: "('e, 'p) rocrand_mrg32k3a \<Rightarrow> ('e, 'p) rocrand_mrg32k3a" where
  "reset this = this\<lparr>m_engines_initialized := False\<rparr>"

definition set_seed ::
  "64 word \<Rightarrow> 64 word \<Rightarrow> ('e, 'p) rocrand_mrg32k3a \<Rightarrow> ('e, 'p) rocrand_mrg32k3a" where
  "set_seed default_seed seed this =
     (let seed = (if seed = 0 then default_seed else seed)
      in this\<lparr>m_seed := seed, m_engines_initialized := False\<rparr>)"

definition set_offset ::
  "64 word \<Rightarrow> ('e, 'p) rocrand_mrg32k3a \<Rightarrow> ('e, 'p) rocrand_mrg32k3a" where
  "set_offset offset this = this\<lparr>m_offset := offset, m_engines_initialized := False\<rparr>"

text \<open>\<open>init\<close>: \<open>peek\<close> is what \<open>hipPeekAtLastError()\<close> returns after the launch.\<close>

definition init ::
  "(64 word \<Rightarrow> 32 word \<Rightarrow> 64 word \<Rightarrow> 'e) \<Rightarrow> platform \<Rightarrow> hipError_t
     \<Rightarrow> ('e, 'p) rocrand_mrg32k3a \<Rightarrow> rocrand_status \<times> ('e, 'p) rocrand_mrg32k3a" where
  "init engine_ctor pf peek this =
     (if m_engines_initialized this then (ROCRAND_STATUS_SUCCESS, this)
      else
        let blocks = max_blocks pf;
            launched = (if peek = hipSuccess
                        then this\<lparr>m_engines :=
                               init_engines_kernel engine_ctor blocks (threads pf)
                                 (m_engines this) (m_seed this) (m_offset this)\<rparr>
                        else this)
        in if peek \<noteq> hipSuccess then (ROCRAND_STATUS_LAUNCH_FAILURE, launched)
           else (ROCRAND_STATUS_SUCCESS, launched\<lparr>m_engines_initialized := True\<rparr>))"

text \<open>
  The generation functions return the status, the generator and the output buffer;
  \<open>None\<close> when the launched kernel never finishes. \<open>peek_init\<close> and \<open>peek\<close> are the
  runtime's answers to the two launches (the first is consulted only when \<open>init\<close>
  launches).
\<close>

definition generate ::
  "(64 word \<Rightarrow> 32 word \<Rightarrow> 64 word \<Rightarrow> 'e) \<Rightarrow> ('e \<Rightarrow> 'r \<times> 'e) \<Rightarrow> platform
     \<Rightarrow> hipError_t \<Rightarrow> hipError_t \<Rightarrow> ('e, 'p) rocrand_mrg32k3a
     \<Rightarrow> (nat \<Rightarrow> 't) \<Rightarrow> 64 word \<Rightarrow> ('r \<Rightarrow> 't)
     \<Rightarrow> (rocrand_status \<times> ('e, 'p) rocrand_mrg32k3a \<times> (nat \<Rightarrow> 't)) option" where
  "generate engine_ctor engine_next pf peek_init peek this data data_size distribution =
     (case init engine_ctor pf peek_init this of
        (status, this1) \<Rightarrow>
          if status \<noteq> ROCRAND_STATUS_SUCCESS then Some (status, this1, data)
          else if peek \<noteq> hipSuccess then Some (ROCRAND_STATUS_LAUNCH_FAILURE, this1, data)
          else (case generate_kernel engine_next (max_blocks pf) (threads pf)
                       (m_engines this1) data data_size distribution of
                  None \<Rightarrow> None
                | Some (engines', data') \<Rightarrow>
                    Some (ROCRAND_STATUS_SUCCESS, this1\<lparr>m_engines := engines'\<rparr>, data')))"

definition generate_uniform ::
  "(64 word \<Rightarrow> 32 word \<Rightarrow> 64 word \<Rightarrow> 'e) \<Rightarrow> ('e \<Rightarrow> 'r \<times> 'e) \<Rightarrow> platform \<Rightarrow> ('r \<Rightarrow> 't)
     \<Rightarrow> hipError_t \<Rightarrow> hipError_t \<Rightarrow> ('e, 'p) rocrand_mrg32k3a
     \<Rightarrow> (nat \<Rightarrow> 't) \<Rightarrow> 64 word
     \<Rightarrow> (rocrand_status \<times> ('e, 'p) rocrand_mrg32k3a \<times> (nat \<Rightarrow> 't)) option" where
  "generate_uniform engine_ctor engine_next pf mrg_uniform_distribution peek_init peek
       this data data_size =
     (let udistribution = mrg_uniform_distribution
      in generate engine_ctor engine_next pf peek_init peek this data data_size udistribution)"

text \<open>
  \<open>generate_normal\<close> and \<open>generate_log_normal\<close> differ in the functor only; its
  constructor \<open>mrg_normal_distribution(mean, stddev)\<close> (or the log-normal one) is the
  parameter \<open>mk_distribution\<close>.
\<close>

definition generate_normal ::
  "(64 word \<Rightarrow> 32 word \<Rightarrow> 64 word \<Rightarrow> 'e) \<Rightarrow> ('e \<Rightarrow> 'r \<times> 'e) \<Rightarrow> platform
     \<Rightarrow> ('t \<Rightarrow> 't \<Rightarrow> 'r \<Rightarrow> 'r \<Rightarrow> 't \<times> 't)
     \<Rightarrow> hipError_t \<Rightarrow> hipError_t \<Rightarrow> ('e, 'p) rocrand_mrg32k3a
     \<Rightarrow> (nat \<Rightarrow> 't) \<Rightarrow> 64 word \<Rightarrow> 't \<Rightarrow> 't
     \<Rightarrow> (rocrand_status \<times> ('e, 'p) rocrand_mrg32k3a \<times> (nat \<Rightarrow> 't)) option" where
  "generate_normal engine_ctor engine_next pf mk_distribution peek_init peek
       this data data_size stddev mean =
     (case init engine_ctor pf peek_init this of
        (status, this1) \<Rightarrow>
          if status \<noteq> ROCRAND_STATUS_SUCCESS then Some (status, this1, data)
          else
            let distribution = mk_distribution mean stddev
            in if peek \<noteq> hipSuccess then Some (ROCRAND_STATUS_LAUNCH_FAILURE, this1, data)
               else (case generate_normal_kernel engine_next (max_blocks pf) (threads pf)
                            (m_engines this1) data data_size distribution of
                       None \<Rightarrow> None
                     | Some (engines', data') \<Rightarrow>
                         Some (ROCRAND_STATUS_SUCCESS, this1\<lparr>m_engines := engines'\<rparr>, data')))"

definition generate_log_normal ::
  "(64 word \<Rightarrow> 32 word \<Rightarrow> 64 word \<Rightarrow> 'e) \<Rightarrow> ('e \<Rightarrow> 'r \<times> 'e) \<Rightarrow> platform
     \<Rightarrow> ('t \<Rightarrow> 't \<Rightarrow> 'r \<Rightarrow> 'r \<Rightarrow> 't \<times> 't)
     \<Rightarrow> hipError_t \<Rightarrow> hipError_t \<Rightarrow> ('e, 'p) rocrand_mrg32k3a
     \<Rightarrow> (nat \<Rightarrow> 't) \<Rightarrow> 64 word \<Rightarrow> 't \<Rightarrow> 't
     \<Rightarrow> (rocrand_status \<times> ('e, 'p) rocrand_mrg32k3a \<times> (nat \<Rightarrow> 't)) option" where
  "generate_log_normal engine_ctor engine_next pf mk_distribution peek_init peek
       this data data_size stddev mean =
     (case init engine_ctor pf peek_init this of
        (status, this1) \<Rightarrow>
          if status \<noteq> ROCRAND_STATUS_SUCCESS then Some (status, this1, data)
          else
            let distribution = mk_distribution mean stddev
            in if peek \<noteq> hipSuccess then Some (ROCRAND_STATUS_LAUNCH_FAILURE, this1, data)
               else (case generate_normal_kernel engine_next (max_blocks pf) (threads pf)
                            (m_engines this1) data data_size distribution of
                       None \<Rightarrow> None
                     | Some (engines', data') \<Rightarrow>
                         Some (ROCRAND_STATUS_SUCCESS, this1\<lparr>m_engines := engines'\<rparr>, data')))"

text \<open>
  \<open>generate_poisson\<close>. The manager's \<open>set_lambda\<close> is a parameter: it returns the status
  it throws, if any, and the manager as it leaves it; \<open>dis\<close> reads the manager's functor.
\<close>

definition generate_poisson ::
  "(64 word \<Rightarrow> 32 word \<Rightarrow> 64 word \<Rightarrow> 'e) \<Rightarrow> ('e \<Rightarrow> 'r \<times> 'e) \<Rightarrow> platform
     \<Rightarrow> ('p \<Rightarrow> 'l \<Rightarrow> rocrand_status option \<times> 'p) \<Rightarrow> ('p \<Rightarrow> 'r \<Rightarrow> 't)
     \<Rightarrow> hipError_t \<Rightarrow> hipError_t \<Rightarrow> ('e, 'p) rocrand_mrg32k3a
     \<Rightarrow> (nat \<Rightarrow> 't) \<Rightarrow> 64 word \<Rightarrow> 'l
     \<Rightarrow> (rocrand_status \<times> ('e, 'p) rocrand_mrg32k3a \<times> (nat \<Rightarrow> 't)) option" where
  "generate_poisson engine_ctor engine_next pf set_lambda dis peek_init peek
       this data data_size lambda =
     (case set_lambda (poisson this) lambda of
        (Some status, poisson') \<Rightarrow> Some (status, this\<lparr>poisson := poisson'\<rparr>, data)
      | (None, poisson') \<Rightarrow>
          generate engine_ctor engine_next pf peek_init peek (this\<lparr>poisson := poisson'\<rparr>)
            data data_size (dis poisson'))"

section \<open>Notions used to state the properties\<close>

text \<open>
  \<open>lanes\<close> is the number of threads of a launch. \<open>sweep_count n s i\<close> is the number of
  positions \<open>i, i + s, i + 2 * s, \<dots>\<close> below \<open>n\<close>: the number of iterations of the strided
  loop of lane \<open>i\<close> when no index wraps.
\<close>

definition lanes :: "32 word \<Rightarrow> 32 word \<Rightarrow> nat" where
  "lanes hipGridDim_x hipBlockDim_x = unat hipGridDim_x * unat hipBlockDim_x"

definition sweep_count :: "nat \<Rightarrow> nat \<Rightarrow> nat \<Rightarrow> nat" where
  "sweep_count n s i = (if i < n then Suc ((n - Suc i) div s) else 0)"

text \<open>
  \<open>pair_draw e j\<close> is the functor applied to the draws \<open>2 * j\<close> and \<open>2 * j + 1\<close> of the
  substream starting at \<open>e\<close>; \<open>pair_slot p k\<close> is the component of the pair \<open>p\<close> that the
  slot \<open>k\<close> of \<open>data\<close> holds when \<open>p\<close> is stored at \<open>data2[k div 2]\<close>.
\<close>

definition pair_draw :: "('e \<Rightarrow> 'r \<times> 'e) \<Rightarrow> ('r \<Rightarrow> 'r \<Rightarrow> 't \<times> 't) \<Rightarrow> 'e \<Rightarrow> nat \<Rightarrow> 't \<times> 't" where
  "pair_draw engine_next distribution e j =
     distribution (nth_draw engine_next e (2 * j)) (nth_draw engine_next e (2 * j + 1))"

definition pair_slot :: "'t \<times> 't \<Rightarrow> nat \<Rightarrow> 't" where
  "pair_slot p k = (if even k then fst p else snd p)"

text \<open>
  The body of a thread of \<open>generate_kernel\<close> as a function of its \<open>engine_id\<close> alone
  (\<open>generate_kernel_lanes\<close> below shows that the kernel is this body run for the
  engine ids \<open>0, \<dots>, lanes - 1\<close>).
\<close>

definition generate_lane ::
  "('e \<Rightarrow> 'r \<times> 'e) \<Rightarrow> 32 word \<Rightarrow> 64 word \<Rightarrow> ('r \<Rightarrow> 't) \<Rightarrow> 32 word
     \<Rightarrow> (nat \<Rightarrow> 'e) \<times> (nat \<Rightarrow> 't) \<Rightarrow> ((nat \<Rightarrow> 'e) \<times> (nat \<Rightarrow> 't)) option" where
  "generate_lane engine_next stride n distribution engine_id mem =
     (case mem of (engines, data) \<Rightarrow>
        (case generate_loop engine_next distribution n stride engine_id
                (engines (unat engine_id)) data of
           None \<Rightarrow> None
         | Some (engine', data') \<Rightarrow> Some (engines(unat engine_id := engine'), data')))"

text \<open>The same for \<open>generate_normal_kernel\<close>, the tail included.\<close>

definition generate_normal_lane ::
  "('e \<Rightarrow> 'r \<times> 'e) \<Rightarrow> 32 word \<Rightarrow> 64 word \<Rightarrow> ('r \<Rightarrow> 'r \<Rightarrow> 't \<times> 't) \<Rightarrow> 32 word
     \<Rightarrow> (nat \<Rightarrow> 'e) \<times> (nat \<Rightarrow> 't) \<Rightarrow> ((nat \<Rightarrow> 'e) \<times> (nat \<Rightarrow> 't)) option" where
  "generate_normal_lane engine_next stride n distribution engine_id mem =
     (case mem of (engines, data) \<Rightarrow>
        (case generate_normal_loop engine_next distribution n stride engine_id
                (engines (unat engine_id)) data of
           None \<Rightarrow> None
         | Some swept \<Rightarrow>
             (case generate_normal_tail engine_next distribution n engine_id swept of
                (engine', data') \<Rightarrow> Some (engines(unat engine_id := engine'), data'))))"

text \<open>
  The number of raw draws that lane \<open>i\<close> takes in one call of \<open>generate_normal_kernel\<close>
  when no index wraps: two for each paired position of its sweep, and two more for the
  tail when \<open>n\<close> is odd and \<open>i = 0\<close>.
\<close>

definition normal_draws :: "nat \<Rightarrow> nat \<Rightarrow> nat \<Rightarrow> nat" where
  "normal_draws n s i = 2 * sweep_count (n div 2) s i + (if i = 0 \<and> odd n then 2 else 0)"

text \<open>
  The memory after a launch when no index wraps: every launched lane's engine advanced
  by its number of draws, and the output slots in terms of the substreams that the
  pool held when the launch began.
\<close>

definition swept_engines ::
  "('e \<Rightarrow> 'r \<times> 'e) \<Rightarrow> (nat \<Rightarrow> nat) \<Rightarrow> nat \<Rightarrow> (nat \<Rightarrow> 'e) \<Rightarrow> (nat \<Rightarrow> 'e)" where
  "swept_engines engine_next draws l engines =
     (\<lambda>i. if i < l then nth_state engine_next (engines i) (draws i) else engines i)"

definition generate_output ::
  "('e \<Rightarrow> 'r \<times> 'e) \<Rightarrow> ('r \<Rightarrow> 't) \<Rightarrow> nat \<Rightarrow> nat \<Rightarrow> (nat \<Rightarrow> 'e) \<Rightarrow> (nat \<Rightarrow> 't) \<Rightarrow> (nat \<Rightarrow> 't)" where
  "generate_output engine_next distribution l n engines data =
     (\<lambda>k. if k < n then distribution (nth_draw engine_next (engines (k mod l)) (k div l))
          else data k)"

definition normal_output ::
  "('e \<Rightarrow> 'r \<times> 'e) \<Rightarrow> ('r \<Rightarrow> 'r \<Rightarrow> 't \<times> 't) \<Rightarrow> nat \<Rightarrow> nat \<Rightarrow> (nat \<Rightarrow> 'e) \<Rightarrow> (nat \<Rightarrow> 't)
     \<Rightarrow> (nat \<Rightarrow> 't)" where
  "normal_output engine_next distribution l n engines data =
     (\<lambda>k. if k div 2 < n div 2
          then pair_slot (pair_draw engine_next distribution (engines ((k div 2) mod l))
                            ((k div 2) div l)) k
          else if odd n \<and> k = n - 1
          then fst (pair_draw engine_next distribution (engines 0) (sweep_count (n div 2) l 0))
          else data k)"

text \<open>The pool after a successful launch of \<open>init_engines_kernel\<close> by \<open>init\<close>.\<close>

definition pool_after_init ::
  "(64 word \<Rightarrow> 32 word \<Rightarrow> 64 word \<Rightarrow> 'e) \<Rightarrow> platform \<Rightarrow> ('e, 'p) rocrand_mrg32k3a \<Rightarrow> (nat \<Rightarrow> 'e)" where
  "pool_after_init engine_ctor pf this =
     (\<lambda>i. if i < lanes (max_blocks pf) (threads pf)
          then engine_ctor (m_seed this) (word_of_nat i) (m_offset this)
          else m_engines this i)"

section \<open>Calls of the host functions whose launches are accepted\<close>

text \<open>
  \<open>ready\<close> is the generator as \<open>init\<close> leaves it when its launch is accepted.
  \<open>one_call\<close> is the output buffer (its first \<open>n\<close> slots) after one call of \<open>generate\<close>
  for \<open>n\<close> values; \<open>two_calls\<close> is the concatenation of the output buffers of a call for
  \<open>k\<close> values and a following call, on the generator the first call left, for \<open>n - k\<close>
  values. Both are \<open>None\<close> when a kernel does not finish.
\<close>

definition ready ::
  "(64 word \<Rightarrow> 32 word \<Rightarrow> 64 word \<Rightarrow> 'e) \<Rightarrow> platform \<Rightarrow> ('e, 'p) rocrand_mrg32k3a
     \<Rightarrow> ('e, 'p) rocrand_mrg32k3a" where
  "ready engine_ctor pf this = snd (init engine_ctor pf hipSuccess this)"

definition one_call ::
  "(64 word \<Rightarrow> 32 word \<Rightarrow> 64 word \<Rightarrow> 'e) \<Rightarrow> ('e \<Rightarrow> 'r \<times> 'e) \<Rightarrow> platform
     \<Rightarrow> ('e, 'p) rocrand_mrg32k3a \<Rightarrow> (nat \<Rightarrow> 't) \<Rightarrow> 64 word \<Rightarrow> ('r \<Rightarrow> 't) \<Rightarrow> 't list option" where
  "one_call engine_ctor engine_next pf this data n distribution =
     (case generate engine_ctor engine_next pf hipSuccess hipSuccess this data n distribution of
        None \<Rightarrow> None
      | Some (status, this', data') \<Rightarrow> Some (map data' [0..<unat n]))"

definition two_calls ::
  "(64 word \<Rightarrow> 32 word \<Rightarrow> 64 word \<Rightarrow> 'e) \<Rightarrow> ('e \<Rightarrow> 'r \<times> 'e) \<Rightarrow> platform
     \<Rightarrow> ('e, 'p) rocrand_mrg32k3a \<Rightarrow> (nat \<Rightarrow> 't) \<Rightarrow> (nat \<Rightarrow> 't) \<Rightarrow> 64 word \<Rightarrow> 64 word
     \<Rightarrow> ('r \<Rightarrow> 't) \<Rightarrow> 't list option" where
  "two_calls engine_ctor engine_next pf this data1 data2 k n distribution =
     (case generate engine_ctor engine_next pf hipSuccess hipSuccess this data1 k distribution of
        None \<Rightarrow> None
      | Some (status1, this1, data1') \<Rightarrow>
          (case generate engine_ctor engine_next pf hipSuccess hipSuccess this1 data2 (n - k)
                  distribution of
             None \<Rightarrow> None
           | Some (status2, this2, data2') \<Rightarrow>
               Some (map data1' [0..<unat k] @ map data2' [0..<unat (n - k)])))"

section \<open>Sequences of calls on one generator\<close>

text \<open>
  To speak of every state a generator can reach, and of two runs of one program, the
  public operations of the class become values. The collaborators that this file uses
  but does not define are collected in \<open>externals\<close>: the macro
  \<open>ROCRAND_MRG32K3A_DEFAULT_SEED\<close>, the engine's constructor and \<open>next()\<close>, the platform
  that the \<open>#ifdef\<close> selects, the functors, and the Poisson manager's \<open>set_lambda\<close> and
  \<open>dis\<close>.
\<close>

record ('e, 'r, 't, 'p, 'l) externals =
  lib_default_seed :: "64 word"
  lib_engine_ctor :: "64 word \<Rightarrow> 32 word \<Rightarrow> 64 word \<Rightarrow> 'e"
  lib_engine_next :: "'e \<Rightarrow> 'r \<times> 'e"
  lib_platform :: platform
  lib_uniform_distribution :: "'r \<Rightarrow> 't"
  lib_normal_distribution :: "'t \<Rightarrow> 't \<Rightarrow> 'r \<Rightarrow> 'r \<Rightarrow> 't \<times> 't"
  lib_log_normal_distribution :: "'t \<Rightarrow> 't \<Rightarrow> 'r \<Rightarrow> 'r \<Rightarrow> 't \<times> 't"
  lib_set_lambda :: "'p \<Rightarrow> 'l \<Rightarrow> rocrand_status option \<times> 'p"
  lib_dis :: "'p \<Rightarrow> 'r \<Rightarrow> 't"

text \<open>
  A call names the operation and its arguments; for the operations that launch kernels
  it also carries the answers of \<open>hipPeekAtLastError()\<close> to the launch of \<open>init\<close> and to
  the launch of the generating kernel, as in \<open>generate\<close> above.
\<close>

datatype ('r, 't, 'l) call =
    Reset
  | Set_seed "64 word"
  | Set_offset "64 word"
  | Init hipError_t
  | Generate hipError_t hipError_t "64 word" "'r \<Rightarrow> 't"
  | Generate_uniform hipError_t hipError_t "64 word"
  | Generate_normal hipError_t hipError_t "64 word" 't 't
  | Generate_log_normal hipError_t hipError_t "64 word" 't 't
  | Generate_poisson hipError_t hipError_t "64 word" 'l

text \<open>
  What the caller observes of a generation call: the status, and the first \<open>n\<close> slots of
  the output buffer when the status is \<open>ROCRAND_STATUS_SUCCESS\<close> (on any other status no
  kernel wrote to the buffer, which holds what it held before the call).
\<close>

definition observed ::
  "64 word \<Rightarrow> (rocrand_status \<times> ('e, 'p) rocrand_mrg32k3a \<times> (nat \<Rightarrow> 't)) option
     \<Rightarrow> (('e, 'p) rocrand_mrg32k3a \<times> (rocrand_status \<times> 't list) option) option" where
  "observed n result =
     (case result of
        None \<Rightarrow> None
      | Some (status, this', data') \<Rightarrow>
          Some (this', Some (status, if status = ROCRAND_STATUS_SUCCESS
                                     then map data' [0..<unat n] else [])))"

text \<open>
  \<open>apply_call\<close> performs one call on the generator, with \<open>data\<close> the buffer handed to it:
  it gives the generator afterwards and the observation (none for the \<open>void\<close>
  operations), or \<open>None\<close> when a kernel of the call never finishes.
\<close>

fun apply_call ::
  "('e, 'r, 't, 'p, 'l) externals \<Rightarrow> ('r, 't, 'l) call \<Rightarrow> ('e, 'p) rocrand_mrg32k3a
     \<Rightarrow> (nat \<Rightarrow> 't)
     \<Rightarrow> (('e, 'p) rocrand_mrg32k3a \<times> (rocrand_status \<times> 't list) option) option" where
  "apply_call ext Reset this data = Some (reset this, None)"
| "apply_call ext (Set_seed seed) this data =
     Some (set_seed (lib_default_seed ext) seed this, None)"
| "apply_call ext (Set_offset offset) this data = Some (set_offset offset this, None)"
| "apply_call ext (Init peek) this data =
     (case init (lib_engine_ctor ext) (lib_platform ext) peek this of
        (status, this') \<Rightarrow> Some (this', Some (status, [])))"
| "apply_call ext (Generate peek_init peek n distribution) this data =
     observed n (generate (lib_engine_ctor ext) (lib_engine_next ext) (lib_platform ext)
                   peek_init peek this data n distribution)"
| "apply_call ext (Generate_uniform peek_init peek n) this data =
     observed n (generate_uniform (lib_engine_ctor ext) (lib_engine_next ext) (lib_platform ext)
                   (lib_uniform_distribution ext) peek_init peek this data n)"
| "apply_call ext (Generate_normal peek_init peek n stddev mean) this data =
     observed n (generate_normal (lib_engine_ctor ext) (lib_engine_next ext) (lib_platform ext)
                   (lib_normal_distribution ext) peek_init peek this data n stddev mean)"
| "apply_call ext (Generate_log_normal peek_init peek n stddev mean) this data =
     observed n (generate_log_normal (lib_engine_ctor ext) (lib_engine_next ext)
                   (lib_platform ext) (lib_log_normal_distribution ext) peek_init peek
                   this data n stddev mean)"
| "apply_call ext (Generate_poisson peek_init peek n lambda) this data =
     observed n (generate_poisson (lib_engine_ctor ext) (lib_engine_next ext) (lib_platform ext)
                   (lib_set_lambda ext) (lib_dis ext) peek_init peek this data n lambda)"

text \<open>
  \<open>run_calls\<close> performs the calls in order, the \<open>i\<close>-th of them on the buffer
  \<open>buffers i\<close>. \<open>run\<close> is a whole run of a program: it constructs the generator and
  performs the calls; \<open>outputs\<close> keeps what the caller observes of it.
\<close>

fun run_calls ::
  "('e, 'r, 't, 'p, 'l) externals \<Rightarrow> ('r, 't, 'l) call list \<Rightarrow> (nat \<Rightarrow> nat \<Rightarrow> 't)
     \<Rightarrow> ('e, 'p) rocrand_mrg32k3a
     \<Rightarrow> (('e, 'p) rocrand_mrg32k3a \<times> (rocrand_status \<times> 't list) option list) option" where
  "run_calls ext [] buffers this = Some (this, [])"
| "run_calls ext (c # cs) buffers this =
     (case apply_call ext c this (buffers 0) of
        None \<Rightarrow> None
      | Some (this', out) \<Rightarrow>
          (case run_calls ext cs (\<lambda>i. buffers (Suc i)) this' of
             None \<Rightarrow> None
           | Some (this'', outs) \<Rightarrow> Some (this'', out # outs)))"

definition run ::
  "('e, 'r, 't, 'p, 'l) externals \<Rightarrow> hipError_t \<times> (nat \<Rightarrow> 'e) \<Rightarrow> 'p \<Rightarrow> 64 word \<Rightarrow> 64 word
     \<Rightarrow> nat \<Rightarrow> ('r, 't, 'l) call list \<Rightarrow> (nat \<Rightarrow> nat \<Rightarrow> 't)
     \<Rightarrow> rocrand_status
         + (('e, 'p) rocrand_mrg32k3a \<times> (rocrand_status \<times> 't list) option list) option" where
  "run ext hipMalloc_result poisson0 seed offset stream calls buffers =
     (case rocrand_mrg32k3a_ctor (lib_default_seed ext) hipMalloc_result poisson0 seed offset
             stream of
        Inl status \<Rightarrow> Inl status
      | Inr this \<Rightarrow> Inr (run_calls ext calls buffers this))"

definition outputs ::
  "rocrand_status + (('e, 'p) rocrand_mrg32k3a \<times> 'o) option \<Rightarrow> rocrand_status + 'o option" where
  "outputs r = (case r of Inl status \<Rightarrow> Inl status | Inr x \<Rightarrow> Inr (map_option snd x))"

text \<open>
  The invariant of the flag: when \<open>m_engines_initialized\<close> is set, the state of every
  launched lane \<open>i\<close> is the one constructed from the current \<open>m_seed\<close>, the lane index
  and the current \<open>m_offset\<close>, advanced by some number of draws.
\<close>

definition engines_current ::
  "('e, 'r, 't, 'p, 'l) externals \<Rightarrow> ('e, 'p) rocrand_mrg32k3a \<Rightarrow> bool" where
  "engines_current ext this =
     (m_engines_initialized this \<longrightarrow>
        (\<forall>i < lanes (max_blocks (lib_platform ext)) (threads (lib_platform ext)).
           \<exists>c. m_engines this i =
                 nth_state (lib_engine_next ext)
                   (lib_engine_ctor ext (m_seed this) (word_of_nat i) (m_offset this)) c))"

text \<open>
  Two generators are \<open>alike\<close> when they differ at most in pool entries that no launch
  reads before writing: all of them while the flag is clear, and those beyond the
  launched lanes otherwise.
\<close>

definition alike ::
  "platform \<Rightarrow> ('e, 'p) rocrand_mrg32k3a \<Rightarrow> ('e, 'p) rocrand_mrg32k3a \<Rightarrow> bool" where
  "alike pf this1 this2 =
     (m_seed this1 = m_seed this2 \<and> m_offset this1 = m_offset this2
      \<and> m_stream this1 = m_stream this2
      \<and> m_engines_initialized this1 = m_engines_initialized this2
      \<and> m_engines_size this1 = m_engines_size this2 \<and> poisson this1 = poisson this2
      \<and> (m_engines_initialized this1 \<longrightarrow>
            (\<forall>i < lanes (max_blocks pf) (threads pf). m_engines this1 i = m_engines this2 i)))"

text \<open>
  A call fits when no index of its generating kernel wraps: \<open>n + lanes \<le> 2 ^ 32\<close> for the
  1:1 protocol, \<open>n div 2 + lanes \<le> 2 ^ 32\<close> for the pairing protocol.
\<close>

fun call_fits :: "platform \<Rightarrow> ('r, 't, 'l) call \<Rightarrow> bool" where
  "call_fits pf (Generate peek_init peek n distribution) =
     (unat n + lanes (max_blocks pf) (threads pf) \<le> 2 ^ 32)"
| "call_fits pf (Generate_uniform peek_init peek n) =
     (unat n + lanes (max_blocks pf) (threads pf) \<le> 2 ^ 32)"
| "call_fits pf (Generate_poisson peek_init peek n lambda) =
     (unat n + lanes (max_blocks pf) (threads pf) \<le> 2 ^ 32)"
| "call_fits pf (Generate_normal peek_init peek n stddev mean) =
     (unat n div 2 + lanes (max_blocks pf) (threads pf) \<le> 2 ^ 32)"
| "call_fits pf (Generate_log_normal peek_init peek n stddev mean) =
     (unat n div 2 + lanes (max_blocks pf) (threads pf) \<le> 2 ^ 32)"
| "call_fits pf Reset = True"
| "call_fits pf (Set_seed seed) = True"
| "call_fits pf (Set_offset offset) = True"
| "call_fits pf (Init peek) = True"

section \<open>Concrete collaborators for worked instances\<close>

text \<open>
  The engine is a parameter of the model; to run it on concrete inputs one is needed. The
  labelled engine draws pairs (lane, position): lane \<open>i\<close> is constructed as \<open>(i, 0)\<close> and
  its draw number \<open>c\<close> is \<open>(i, c)\<close>, so that in an output buffer one reads off which lane
  produced a value and which of its draws it was. Distinct lanes have disjoint
  substreams, as the spec asks of the engine's constructor.
\<close>

definition label_ctor :: "64 word \<Rightarrow> 32 word \<Rightarrow> 64 word \<Rightarrow> nat \<times> nat" where
  "label_ctor seed subsequence offset = (unat subsequence, 0)"

definition label_next :: "nat \<times> nat \<Rightarrow> (nat \<times> nat) \<times> (nat \<times> nat)" where
  "label_next e = (e, (fst e, Suc (snd e)))"

text \<open>
  A Poisson manager for worked instances: its state is the cached lambda, and
  \<open>set_lambda\<close> throws a status for a lambda that is not positive.
\<close>

definition sample_set_lambda :: "int \<Rightarrow> int \<Rightarrow> rocrand_status option \<times> int" where
  "sample_set_lambda p lambda =
     (if lambda \<le> 0 then (Some (ROCRAND_STATUS_other 104), p) else (None, lambda))"

definition fresh_generator :: "(nat \<times> nat, int) rocrand_mrg32k3a" where
  "fresh_generator =
     \<lparr>m_seed = 12345, m_offset = 0, m_stream = 0, m_engines_initialized = False,
      m_engines = (\<lambda>_. (0, 0)), m_engines_size = 1024 * 256, poisson = 0\<rparr>"

text \<open>
  The stamped engine also records the seed and the offset it was constructed from: the
  draw number \<open>c\<close> of lane \<open>i\<close> is \<open>((seed, offset), (i, c))\<close>. \<open>sample_externals\<close> puts it
  together with functors that pass the raw draws through and the Poisson manager above.
\<close>

definition stamp_ctor :: "64 word \<Rightarrow> 32 word \<Rightarrow> 64 word \<Rightarrow> (nat \<times> nat) \<times> (nat \<times> nat)" where
  "stamp_ctor seed subsequence offset = ((unat seed, unat offset), (unat subsequence, 0))"

definition stamp_next ::
  "(nat \<times> nat) \<times> (nat \<times> nat) \<Rightarrow> ((nat \<times> nat) \<times> (nat \<times> nat)) \<times> ((nat \<times> nat) \<times> (nat \<times> nat))" where
  "stamp_next e = (e, (fst e, (fst (snd e), Suc (snd (snd e)))))"

definition sample_externals ::
  "((nat \<times> nat) \<times> (nat \<times> nat), (nat \<times> nat) \<times> (nat \<times> nat), (nat \<times> nat) \<times> (nat \<times> nat),
    int, int) externals" where
  "sample_externals =
     \<lparr>lib_default_seed = 12345, lib_engine_ctor = stamp_ctor, lib_engine_next = stamp_next,
      lib_platform = HIP_PLATFORM_HCC, lib_uniform_distribution = id,
      lib_normal_distribution = (\<lambda>mean stddev r1 r2. (r1, r2)),
      lib_log_normal_distribution = (\<lambda>mean stddev r1 r2. (r2, r1)),
      lib_set_lambda = sample_set_lambda, lib_dis = (\<lambda>p. id)\<rparr>"

section \<open>The kernels when no index wraps\<close>

subsection \<open>Arithmetic of the strided sweep\<close>

lemma ucast_less_iff: "(ucast (i :: 32 word) < (n :: 64 word)) = (unat i < unat n)"
proof -
  have "unat (ucast i :: 64 word) = unat i" by transfer simp
  then show ?thesis by (simp add: word_less_nat_alt)
qed

lemma nth_state_add: "nth_state nx (nth_state nx e a) b = nth_state nx e (a + b)"
  by (induction a arbitrary: e) simp_all

lemma nth_draw_nth_state: "nth_draw nx (nth_state nx e a) b = nth_draw nx e (a + b)"
  by (simp add: nth_draw_def nth_state_add)

lemma nth_draw_Suc: "nth_draw nx e (Suc c) = nth_draw nx (snd (nx e)) c"
  by (simp add: nth_draw_def)

lemma div_step:
  assumes s: "0 < s" and l: "i + s < n"
  shows "(n - Suc i) div s = Suc ((n - Suc (i + s)) div (s::nat))"
proof -
  have e: "n - Suc i = (n - Suc (i + s)) + s" using l by arith
  have "((n - Suc (i + s)) + s) div s = (n - Suc (i + s)) div s + 1"
    using s by (intro div_add_self2) simp
  then show ?thesis by (simp only: e)
qed

lemma sweep_count_step:
  assumes "0 < s" "i < n"
  shows "sweep_count n s i = Suc (sweep_count n s (i + s))"
proof (cases "i + s < n")
  case True
  have "sweep_count n s i = Suc ((n - Suc i) div s)"
    using assms(2) by (simp only: sweep_count_def if_True)
  also have "\<dots> = Suc (Suc ((n - Suc (i + s)) div s))"
    by (simp only: div_step[OF assms(1) True])
  also have "\<dots> = Suc (sweep_count n s (i + s))"
    using True by (simp only: sweep_count_def if_True)
  finally show ?thesis .
next
  case False
  then have "n - Suc i < s" using assms by arith
  then have "(n - Suc i) div s = 0" by (rule div_less)
  then have "sweep_count n s i = Suc 0"
    using assms(2) by (simp only: sweep_count_def if_True)
  moreover have "sweep_count n s (i + s) = 0"
    using False by (simp only: sweep_count_def if_False)
  ultimately show ?thesis by (simp only:)
qed

lemma stride_pos_arith:
  assumes "0 < (s::nat)" "i \<le> k" "(k - i) mod s = 0" "k \<noteq> i"
  shows "i + s \<le> k \<and> (k - (i + s)) mod s = 0 \<and> (k - i) div s = Suc ((k - (i + s)) div s)"
proof -
  from assms have "s dvd (k - i)" "0 < k - i" by auto
  then have "s \<le> k - i" by (simp add: dvd_imp_le)
  then have a: "i + s \<le> k" using assms by arith
  have b: "k - i = (k - (i + s)) + s" using a by arith
  have c: "(k - (i + s)) mod s = (k - i) mod s" by (simp only: b mod_add_self2)
  have "(k - (i + s) + s) div s = (k - (i + s)) div s + 1"
    using assms(1) by (intro div_add_self2) simp
  then have d: "(k - i) div s = Suc ((k - (i + s)) div s)"
    by (simp only: b)
  show ?thesis using a c d assms(3) by simp
qed

subsection \<open>The two loops\<close>

lemma generate_loop_in_range:
  assumes s: "0 < unat stride" and r: "unat n + unat stride \<le> 2 ^ 32"
  shows "generate_loop nx dist n stride index e d =
    Some (nth_state nx e (sweep_count (unat n) (unat stride) (unat index)),
          \<lambda>k. if unat index \<le> k \<and> k < unat n \<and> (k - unat index) mod unat stride = 0
               then dist (nth_draw nx e ((k - unat index) div unat stride)) else d k)"
  using s r
proof (induction "unat n - unat index" arbitrary: index e d rule: less_induct)
  case less
  show ?case
  proof (cases "unat index < unat n")
    case False
    then show ?thesis
      by (subst generate_loop.simps) (auto simp: ucast_less_iff sweep_count_def fun_eq_iff)
  next
    case True
    obtain r e1 where nx: "nx e = (r, e1)" by (cases "nx e")
    have "unat index + unat stride < 2 ^ 32" using True less.prems by simp
    then have nowrap: "unat (index + stride) = unat index + unat stride"
      using unat_add_lem[of index stride] by simp
    have m: "unat n - unat (index + stride) < unat n - unat index"
      using True s nowrap by simp
    note IH = less(1)[OF m s r, of e1 "d(unat index := dist r)"]
    have cnt: "sweep_count (unat n) (unat stride) (unat index)
                = Suc (sweep_count (unat n) (unat stride) (unat index + unat stride))"
      using sweep_count_step[OF s True] .
    have e1: "e1 = snd (nx e)" and r: "r = nth_draw nx e 0" using nx by (simp_all add: nth_draw_def)
    have data: "(\<lambda>k. if unat index + unat stride \<le> k \<and> k < unat n \<and> (k - (unat index + unat stride)) mod unat stride = 0
               then dist (nth_draw nx e1 ((k - (unat index + unat stride)) div unat stride)) else (d(unat index := dist r)) k)
         = (\<lambda>k. if unat index \<le> k \<and> k < unat n \<and> (k - unat index) mod unat stride = 0
               then dist (nth_draw nx e ((k - unat index) div unat stride)) else d k)"
    proof (rule ext)
      fix k
      show "(if unat index + unat stride \<le> k \<and> k < unat n \<and> (k - (unat index + unat stride)) mod unat stride = 0
               then dist (nth_draw nx e1 ((k - (unat index + unat stride)) div unat stride)) else (d(unat index := dist r)) k)
         = (if unat index \<le> k \<and> k < unat n \<and> (k - unat index) mod unat stride = 0
               then dist (nth_draw nx e ((k - unat index) div unat stride)) else d k)"
      proof (cases "k = unat index")
        case True
        then show ?thesis using s \<open>unat index < unat n\<close> by (simp add: r)
      next
        case ne: False
        show ?thesis
        proof (cases "unat index \<le> k \<and> (k - unat index) mod unat stride = 0")
          case True
          then have h: "unat index \<le> k" "(k - unat index) mod unat stride = 0" by simp_all
          note st = stride_pos_arith[OF s h ne]
          note A = st[THEN conjunct1] and B = st[THEN conjunct2, THEN conjunct1]
            and C = st[THEN conjunct2, THEN conjunct2]
          have eq: "nth_draw nx e ((k - unat index) div unat stride)
                  = nth_draw nx e1 ((k - (unat index + unat stride)) div unat stride)"
            by (simp only: C nth_draw_Suc e1[symmetric])
          show ?thesis
            by (simp only: A B h eq ne fun_upd_apply simp_thms if_True if_False)
        next
          case False
          have "\<not> (unat index + unat stride \<le> k \<and> (k - (unat index + unat stride)) mod unat stride = 0)"
          proof
            assume a: "unat index + unat stride \<le> k \<and> (k - (unat index + unat stride)) mod unat stride = 0"
            then have "k - unat index = (k - (unat index + unat stride)) + unat stride" by arith
            then have "(k - unat index) mod unat stride = (k - (unat index + unat stride)) mod unat stride"
              by (simp only: mod_add_self2)
            with a have "(k - unat index) mod unat stride = 0" by simp
            with a False show False by simp
          qed
          with False ne show ?thesis by auto
        qed
      qed
    qed
    have "generate_loop nx dist n stride index e d =
            generate_loop nx dist n stride (index + stride) e1 (d(unat index := dist r))"
      by (subst generate_loop.simps) (simp add: ucast_less_iff True nx)
    also have "\<dots> = Some (nth_state nx e1 (sweep_count (unat n) (unat stride) (unat index + unat stride)),
          \<lambda>k. if unat index + unat stride \<le> k \<and> k < unat n \<and> (k - (unat index + unat stride)) mod unat stride = 0
               then dist (nth_draw nx e1 ((k - (unat index + unat stride)) div unat stride)) else (d(unat index := dist r)) k)"
      using IH by (simp only: nowrap)
    also have "\<dots> = Some (nth_state nx e (sweep_count (unat n) (unat stride) (unat index)),
          \<lambda>k. if unat index \<le> k \<and> k < unat n \<and> (k - unat index) mod unat stride = 0
               then dist (nth_draw nx e ((k - unat index) div unat stride)) else d k)"
      by (simp only: data cnt) (simp add: e1)
    finally show ?thesis .
  qed
qed

lemma pair_draw_Suc: "pair_draw nx dist e (Suc j) = pair_draw nx dist (snd (nx (snd (nx e)))) j"
  by (simp add: pair_draw_def nth_draw_def)

lemma ucast_less_half_iff: "(ucast (i :: 32 word) < (n :: 64 word) div 2) = (unat i < unat n div 2)"
  by (simp add: ucast_less_iff unat_div)

lemma not_stride_later:
  assumes "\<not> (i \<le> q \<and> (q - i) mod s = 0)"
  shows "\<not> (i + s \<le> q \<and> (q - (i + s)) mod (s::nat) = 0)"
proof
  assume a: "i + s \<le> q \<and> (q - (i + s)) mod s = 0"
  then have "q - i = (q - (i + s)) + s" by arith
  then have "(q - i) mod s = (q - (i + s)) mod s" by (simp only: mod_add_self2)
  with a assms show False by simp
qed

lemma generate_normal_loop_in_range:
  assumes s: "0 < unat stride" and r: "unat n div 2 + unat stride \<le> 2 ^ 32"
  shows "generate_normal_loop nx dist n stride index e d =
    Some (nth_state nx e (2 * sweep_count (unat n div 2) (unat stride) (unat index)),
          \<lambda>k. if unat index \<le> k div 2 \<and> k div 2 < unat n div 2
                  \<and> (k div 2 - unat index) mod unat stride = 0
               then pair_slot (pair_draw nx dist e ((k div 2 - unat index) div unat stride)) k
               else d k)"
  using s r
proof (induction "unat n div 2 - unat index" arbitrary: index e d rule: less_induct)
  case less
  let ?h = "unat n div 2" and ?s = "unat stride" and ?i = "unat index"
  show ?case
  proof (cases "?i < ?h")
    case False
    then show ?thesis
      by (subst generate_normal_loop.simps)
         (auto simp: ucast_less_half_iff sweep_count_def fun_eq_iff)
  next
    case True
    obtain r1 e1 where nx1: "nx e = (r1, e1)" by (cases "nx e")
    obtain r2 e2 where nx2: "nx e1 = (r2, e2)" by (cases "nx e1")
    obtain x y where xy: "dist r1 r2 = (x, y)" by (cases "dist r1 r2")
    let ?d1 = "d(2 * ?i := x, 2 * ?i + 1 := y)"
    have "?i + ?s < 2 ^ 32" using True less.prems by simp
    then have nowrap: "unat (index + stride) = ?i + ?s"
      using unat_add_lem[of index stride] by simp
    have m: "?h - unat (index + stride) < ?h - ?i"
      using True s nowrap by simp
    note IH = less(1)[OF m s r, of e2 ?d1]
    have cnt: "sweep_count ?h ?s ?i = Suc (sweep_count ?h ?s (?i + ?s))"
      using sweep_count_step[OF s True] .
    have e2: "e2 = snd (nx (snd (nx e)))" using nx1 nx2 by simp
    have p0: "pair_draw nx dist e 0 = (x, y)"
      using nx1 nx2 xy by (simp add: pair_draw_def nth_draw_def)
    have data: "(\<lambda>k. if ?i + ?s \<le> k div 2 \<and> k div 2 < ?h \<and> (k div 2 - (?i + ?s)) mod ?s = 0
               then pair_slot (pair_draw nx dist e2 ((k div 2 - (?i + ?s)) div ?s)) k else ?d1 k)
         = (\<lambda>k. if ?i \<le> k div 2 \<and> k div 2 < ?h \<and> (k div 2 - ?i) mod ?s = 0
               then pair_slot (pair_draw nx dist e ((k div 2 - ?i) div ?s)) k else d k)"
    proof (rule ext)
      fix k
      show "(if ?i + ?s \<le> k div 2 \<and> k div 2 < ?h \<and> (k div 2 - (?i + ?s)) mod ?s = 0
               then pair_slot (pair_draw nx dist e2 ((k div 2 - (?i + ?s)) div ?s)) k else ?d1 k)
         = (if ?i \<le> k div 2 \<and> k div 2 < ?h \<and> (k div 2 - ?i) mod ?s = 0
               then pair_slot (pair_draw nx dist e ((k div 2 - ?i) div ?s)) k else d k)"
      proof (cases "k div 2 = ?i")
        case eq: True
        then have "k = 2 * ?i \<or> k = 2 * ?i + 1" by arith
        then show ?thesis using s True eq by (auto simp: p0 pair_slot_def)
      next
        case ne: False
        then have nk: "k \<noteq> 2 * ?i" "k \<noteq> 2 * ?i + 1" by auto
        show ?thesis
        proof (cases "?i \<le> k div 2 \<and> (k div 2 - ?i) mod ?s = 0")
          case True
          then have h: "?i \<le> k div 2" "(k div 2 - ?i) mod ?s = 0" by simp_all
          note st = stride_pos_arith[OF s h ne]
          note A = st[THEN conjunct1] and B = st[THEN conjunct2, THEN conjunct1]
            and C = st[THEN conjunct2, THEN conjunct2]
          have eq: "pair_draw nx dist e ((k div 2 - ?i) div ?s)
                  = pair_draw nx dist e2 ((k div 2 - (?i + ?s)) div ?s)"
            by (simp only: C pair_draw_Suc e2[symmetric])
          have nk': "(k = 2 * ?i) = False" "(k = 2 * ?i + 1) = False" using nk by simp_all
          show ?thesis
            by (simp only: A B h eq nk' fun_upd_apply simp_thms if_True if_False)
        next
          case False
          from not_stride_later[OF False] False nk show ?thesis by auto
        qed
      qed
    qed
    have "generate_normal_loop nx dist n stride index e d =
            generate_normal_loop nx dist n stride (index + stride) e2 ?d1"
      by (subst generate_normal_loop.simps) (simp add: ucast_less_half_iff True nx1 nx2 xy)
    also have "\<dots> = Some (nth_state nx e2 (2 * sweep_count ?h ?s (?i + ?s)),
          \<lambda>k. if ?i + ?s \<le> k div 2 \<and> k div 2 < ?h \<and> (k div 2 - (?i + ?s)) mod ?s = 0
               then pair_slot (pair_draw nx dist e2 ((k div 2 - (?i + ?s)) div ?s)) k else ?d1 k)"
      using IH by (simp only: nowrap)
    also have "\<dots> = Some (nth_state nx e (2 * sweep_count ?h ?s ?i),
          \<lambda>k. if ?i \<le> k div 2 \<and> k div 2 < ?h \<and> (k div 2 - ?i) mod ?s = 0
               then pair_slot (pair_draw nx dist e ((k div 2 - ?i) div ?s)) k else d k)"
      by (simp only: data cnt) (simp add: e2)
    finally show ?thesis .
  qed
qed

subsection \<open>A launch as a sequence of lanes\<close>

lemma upt_blocks: "concat (map (\<lambda>b. map (\<lambda>t. t + b * B) [0..<B]) [0..<G]) = [0..<G * B]"
proof (induction G)
  case 0
  show ?case by simp
next
  case (Suc G)
  have a: "map (\<lambda>t. t + G * B) [0..<B] = [G * B..<B + G * B]" by (rule map_add_upt)
  have b: "[0..<G * B + B] = [0..<G * B] @ [G * B..<G * B + B]"
    by (rule upt_add_eq_append) (rule le0)
  have c: "Suc G * B = G * B + B" by (rule trans[OF mult_Suc add.commute])
  have d: "B + G * B = G * B + B" by (rule add.commute)
  have "concat (map (\<lambda>b. map (\<lambda>t. t + b * B) [0..<B]) [0..<Suc G])
        = concat (map (\<lambda>b. map (\<lambda>t. t + b * B) [0..<B]) [0..<G]) @ map (\<lambda>t. t + G * B) [0..<B]"
    by simp
  also have "\<dots> = [0..<G * B] @ [G * B..<G * B + B]" by (simp only: Suc.IH a d)
  also have "\<dots> = [0..<Suc G * B]" by (simp only: b c)
  finally show ?case .
qed

lemma engine_ids:
  "map (\<lambda>(b, t). b * bd + t) (thread_ids g bd) = map word_of_nat [0..<lanes g bd]"
proof -
  have w: "\<And>b t. (word_of_nat b :: 32 word) * bd + word_of_nat t = word_of_nat (t + b * unat bd)"
    by simp
  have "map (\<lambda>(b, t). b * bd + t) (thread_ids g bd)
        = map word_of_nat (concat (map (\<lambda>b. map (\<lambda>t. t + b * unat bd) [0..<unat bd]) [0..<unat g]))"
    by (simp only: thread_ids_def map_concat map_map comp_def prod.case w)
  then show ?thesis by (simp only: upt_blocks lanes_def)
qed

lemma run_threads_map: "run_threads (\<lambda>i. f (h i)) xs s = run_threads f (map h xs) s"
  by (induction xs arbitrary: s) (simp_all split: option.splits)

lemma run_threads_snoc:
  "run_threads f (xs @ [x]) s = (case run_threads f xs s of None \<Rightarrow> None | Some s' \<Rightarrow> f x s')"
  by (induction xs arbitrary: s) (simp_all split: option.splits)

lemma generate_kernel_lanes:
  "generate_kernel nx g bd engines data n dist =
     run_threads (generate_lane nx (g * bd) n dist) (map word_of_nat [0..<lanes g bd]) (engines, data)"
proof -
  have "generate_kernel_thread nx g bd n dist
          = (\<lambda>tid. generate_lane nx (g * bd) n dist ((\<lambda>(b, t). b * bd + t) tid))"
    by (intro ext)
       (auto simp: generate_kernel_thread_def generate_lane_def Let_def split: prod.splits)
  then show ?thesis
    unfolding generate_kernel_def by (simp only: run_threads_map engine_ids)
qed

lemma lane_arith:
  assumes "m < (L::nat)"
  shows "(m \<le> k \<and> (k - m) mod L = 0) = (k mod L = m)"
    and "k mod L = m \<Longrightarrow> (k - m) div L = k div L"
proof -
  have Lpos: "L \<noteq> 0" using assms by arith
  have bk: "k mod L = m \<Longrightarrow> m \<le> k \<and> (k - m) mod L = 0 \<and> (k - m) div L = k div L"
  proof -
    assume b: "k mod L = m"
    have "k div L * L + k mod L = k" by (rule div_mult_mod_eq)
    then have e: "k div L * L + m = k" by (simp only: b)
    then have le: "m \<le> k" and d: "k - m = k div L * L" by arith+
    have "(k div L * L) mod L = 0" by (rule mod_mult_self2_is_0)
    moreover have "(k div L * L) div L = k div L" using Lpos by (rule nonzero_mult_div_cancel_right)
    ultimately show ?thesis using le by (simp only: d simp_thms)
  qed
  show "(m \<le> k \<and> (k - m) mod L = 0) = (k mod L = m)"
  proof
    assume a: "m \<le> k \<and> (k - m) mod L = 0"
    then have "L dvd (k - m)" by (simp only: mod_eq_0_iff_dvd)
    then obtain q where q: "k - m = L * q" by (rule dvdE)
    with a have "k = m + q * L" by (simp only: mult.commute) arith
    then have "k mod L = m mod L" by (simp only: mod_mult_self1)
    then show "k mod L = m" using assms by (simp only: mod_less)
  next
    assume "k mod L = m"
    from bk[OF this] show "m \<le> k \<and> (k - m) mod L = 0" by (simp only: simp_thms)
  qed
  show "k mod L = m \<Longrightarrow> (k - m) div L = k div L"
    using bk by (simp only: simp_thms)
qed

lemma generate_lane_in_range:
  assumes L: "lanes g bd < 2 ^ 32" and m: "m < lanes g bd"
    and r: "unat n + lanes g bd \<le> 2 ^ 32"
  shows "generate_lane nx (g * bd) n dist (word_of_nat m) (E, D) =
    Some (E(m := nth_state nx (E m) (sweep_count (unat n) (lanes g bd) m)),
          \<lambda>k. if k < unat n \<and> k mod lanes g bd = m
               then dist (nth_draw nx (E m) (k div lanes g bd)) else D k)"
proof -
  have st: "unat (g * bd) = lanes g bd"
    using L unat_mult_lem[of g bd] by (simp add: lanes_def)
  have um: "unat (word_of_nat m :: 32 word) = m"
    using L m by (simp add: unat_of_nat)
  have pos: "0 < unat (g * bd)" using st m by simp
  have rr: "unat n + unat (g * bd) \<le> 2 ^ 32" using r st by simp
  have data: "(\<lambda>k. if m \<le> k \<and> k < unat n \<and> (k - m) mod lanes g bd = 0
               then dist (nth_draw nx (E m) ((k - m) div lanes g bd)) else D k)
            = (\<lambda>k. if k < unat n \<and> k mod lanes g bd = m
               then dist (nth_draw nx (E m) (k div lanes g bd)) else D k)"
  proof (rule ext)
    fix k
    have c: "(m \<le> k \<and> k < unat n \<and> (k - m) mod lanes g bd = 0) = (k < unat n \<and> k mod lanes g bd = m)"
      by (simp only: lane_arith(1)[OF m, of k, symmetric] conj_ac)
    show "(if m \<le> k \<and> k < unat n \<and> (k - m) mod lanes g bd = 0
               then dist (nth_draw nx (E m) ((k - m) div lanes g bd)) else D k)
            = (if k < unat n \<and> k mod lanes g bd = m
               then dist (nth_draw nx (E m) (k div lanes g bd)) else D k)"
      by (simp only: c) (simp add: lane_arith(2)[OF m] cong: if_cong)
  qed
  note lp = generate_loop_in_range[OF pos rr, of nx dist "word_of_nat m" "E m" D, unfolded st um]
  show ?thesis
    unfolding generate_lane_def
    by (simp only: fst_conv snd_conv um lp data option.case prod.case)
qed

lemma generate_kernel_prefix:
  assumes L: "lanes g bd < 2 ^ 32" and r: "unat n + lanes g bd \<le> 2 ^ 32"
  shows "m \<le> lanes g bd \<Longrightarrow>
    run_threads (generate_lane nx (g * bd) n dist) (map word_of_nat [0..<m]) (E, D) =
    Some (\<lambda>i. if i < m then nth_state nx (E i) (sweep_count (unat n) (lanes g bd) i) else E i,
          \<lambda>k. if k < unat n \<and> k mod lanes g bd < m
               then dist (nth_draw nx (E (k mod lanes g bd)) (k div lanes g bd)) else D k)"
proof (induction m)
  case 0
  show ?case by simp
next
  case (Suc m)
  then have m: "m < lanes g bd" and IH: "run_threads (generate_lane nx (g * bd) n dist) (map word_of_nat [0..<m]) (E, D) =
    Some (\<lambda>i. if i < m then nth_state nx (E i) (sweep_count (unat n) (lanes g bd) i) else E i,
          \<lambda>k. if k < unat n \<and> k mod lanes g bd < m
               then dist (nth_draw nx (E (k mod lanes g bd)) (k div lanes g bd)) else D k)"
    by simp_all
  let ?f = "\<lambda>i. nth_state nx (E i) (sweep_count (unat n) (lanes g bd) i)"
  let ?o = "\<lambda>k. dist (nth_draw nx (E (k mod lanes g bd)) (k div lanes g bd))"
  let ?Em = "\<lambda>i. if i < m then ?f i else E i"
  let ?Dm = "\<lambda>k. if k < unat n \<and> k mod lanes g bd < m then ?o k else D k"
  have Emm: "?Em m = E m" by simp
  have lane: "generate_lane nx (g * bd) n dist (word_of_nat m) (?Em, ?Dm) =
    Some (?Em(m := nth_state nx (?Em m) (sweep_count (unat n) (lanes g bd) m)),
          \<lambda>k. if k < unat n \<and> k mod lanes g bd = m
               then dist (nth_draw nx (?Em m) (k div lanes g bd)) else ?Dm k)"
    by (rule generate_lane_in_range[OF L m r])
  have E': "?Em(m := nth_state nx (?Em m) (sweep_count (unat n) (lanes g bd) m))
             = (\<lambda>i. if i < Suc m then ?f i else E i)"
    by (rule ext) (simp add: less_Suc_eq)
  have D': "(\<lambda>k. if k < unat n \<and> k mod lanes g bd = m
               then dist (nth_draw nx (?Em m) (k div lanes g bd)) else ?Dm k)
             = (\<lambda>k. if k < unat n \<and> k mod lanes g bd < Suc m then ?o k else D k)"
    by (rule ext) (auto simp add: less_Suc_eq)
  have "run_threads (generate_lane nx (g * bd) n dist) (map word_of_nat [0..<Suc m]) (E, D)
          = generate_lane nx (g * bd) n dist (word_of_nat m) (?Em, ?Dm)"
    by (simp add: run_threads_snoc IH)
  also have "\<dots> = Some (\<lambda>i. if i < Suc m then ?f i else E i,
          \<lambda>k. if k < unat n \<and> k mod lanes g bd < Suc m then ?o k else D k)"
    by (simp only: lane E' D')
  finally show ?case .
qed

subsection \<open>The tail and the whole launch\<close>

lemma generate_normal_kernel_lanes:
  "generate_normal_kernel nx g bd engines data n dist =
     run_threads (generate_normal_lane nx (g * bd) n dist) (map word_of_nat [0..<lanes g bd])
       (engines, data)"
proof -
  have "generate_normal_kernel_thread nx g bd n dist
          = (\<lambda>tid. generate_normal_lane nx (g * bd) n dist ((\<lambda>(b, t). b * bd + t) tid))"
    by (intro ext)
       (auto simp: generate_normal_kernel_thread_def generate_normal_lane_def Let_def
             split: prod.splits)
  then show ?thesis
    unfolding generate_normal_kernel_def by (simp only: run_threads_map engine_ids)
qed

lemma pair_draw_nth_state:
  "pair_draw nx dist (nth_state nx e (2 * a)) j = pair_draw nx dist e (a + j)"
proof -
  have "2 * a + 2 * j = 2 * (a + j)" "2 * a + (2 * j + 1) = 2 * (a + j) + 1" by arith+
  then show ?thesis by (simp only: pair_draw_def nth_draw_nth_state)
qed

lemma word_and_1_pos: "(0 < (n::64 word) AND 1) = odd (unat n)"
proof -
  have "odd n = odd (unat n)" by transfer (simp add: even_nat_iff)
  moreover have "(0 < n AND 1) = odd n"
    by (simp add: and_one_eq mod_2_eq_odd word_greater_zero_iff)
  ultimately show ?thesis by (simp only:)
qed

lemma unat_odd_minus_1: "odd (unat (n::64 word)) \<Longrightarrow> unat (n - 1) = unat n - 1"
  by (rule unat_minus_one) auto

lemma lane_id_zero:
  assumes "L < (2::nat) ^ 32" "m < L"
  shows "((word_of_nat m :: 32 word) = 0) = (m = 0)"
proof -
  have um: "unat (word_of_nat m :: 32 word) = m" using assms by (simp add: unat_of_nat)
  show ?thesis using um unat_eq_0[of "word_of_nat m :: 32 word"] by simp
qed

lemma generate_normal_tail_lane:
  assumes "L < (2::nat) ^ 32" "m < L"
  shows "generate_normal_tail nx dist n (word_of_nat m) (e, d) =
     (if m = 0 \<and> odd (unat n)
      then (nth_state nx e 2, d(unat n - 1 := fst (pair_draw nx dist e 0)))
      else (e, d))"
proof -
  obtain r1 e1 where nx1: "nx e = (r1, e1)" by (cases "nx e")
  obtain r2 e2 where nx2: "nx e1 = (r2, e2)" by (cases "nx e1")
  have s2: "nth_state nx e 2 = e2"
    using nx1 nx2 by (simp add: numeral_2_eq_2)
  have p0: "pair_draw nx dist e 0 = dist r1 r2"
    using nx1 nx2 by (simp add: pair_draw_def nth_draw_def)
  show ?thesis
  proof (cases "m = 0 \<and> odd (unat n)")
    case True
    then have m0: "m = 0" and od: "odd (unat n)" by simp_all
    have c1: "(word_of_nat m :: 32 word) = 0" by (simp add: m0)
    have c2: "0 < n AND 1" by (rule iffD2[OF word_and_1_pos od])
    show ?thesis
      unfolding generate_normal_tail_def
      by (simp add: c1 c2 nx1 nx2 s2 p0 unat_odd_minus_1[OF od] Let_def m0 od)
  next
    case False
    then have c: "\<not> ((word_of_nat m :: 32 word) = 0 \<and> 0 < n AND 1)"
      by (simp only: lane_id_zero[OF assms] word_and_1_pos simp_thms)
    show ?thesis
      unfolding generate_normal_tail_def
      using False c by (simp only: prod.case if_False)
  qed
qed

lemma odd_pred_half: "odd (n::nat) \<Longrightarrow> (n - 1) div 2 = n div 2"
  by (elim oddE) simp

lemma generate_normal_lane_in_range:
  assumes L: "lanes g bd < 2 ^ 32" and m: "m < lanes g bd"
    and r: "unat n div 2 + lanes g bd \<le> 2 ^ 32"
  shows "generate_normal_lane nx (g * bd) n dist (word_of_nat m) (E, D) =
    Some (E(m := nth_state nx (E m) (normal_draws (unat n) (lanes g bd) m)),
          \<lambda>k. if k div 2 < unat n div 2 \<and> (k div 2) mod lanes g bd = m
               then pair_slot (pair_draw nx dist (E m) ((k div 2) div lanes g bd)) k
               else if m = 0 \<and> odd (unat n) \<and> k = unat n - 1
               then fst (pair_draw nx dist (E m) (sweep_count (unat n div 2) (lanes g bd) m))
               else D k)"
proof -
  let ?L = "lanes g bd" and ?h = "unat n div 2"
  let ?c = "sweep_count ?h ?L m"
  let ?S = "\<lambda>k. if k div 2 < ?h \<and> (k div 2) mod ?L = m
               then pair_slot (pair_draw nx dist (E m) ((k div 2) div ?L)) k else D k"
  have st: "unat (g * bd) = ?L"
    using L unat_mult_lem[of g bd] by (simp add: lanes_def)
  have um: "unat (word_of_nat m :: 32 word) = m"
    using L m by (simp add: unat_of_nat)
  have pos: "0 < unat (g * bd)" using st m by simp
  have rr: "unat n div 2 + unat (g * bd) \<le> 2 ^ 32" using r st by simp
  have data: "(\<lambda>k. if m \<le> k div 2 \<and> k div 2 < ?h \<and> (k div 2 - m) mod ?L = 0
               then pair_slot (pair_draw nx dist (E m) ((k div 2 - m) div ?L)) k else D k) = ?S"
  proof (rule ext)
    fix k
    have c: "(m \<le> k div 2 \<and> k div 2 < ?h \<and> (k div 2 - m) mod ?L = 0)
              = (k div 2 < ?h \<and> (k div 2) mod ?L = m)"
      by (simp only: lane_arith(1)[OF m, of "k div 2", symmetric] conj_ac)
    show "(if m \<le> k div 2 \<and> k div 2 < ?h \<and> (k div 2 - m) mod ?L = 0
               then pair_slot (pair_draw nx dist (E m) ((k div 2 - m) div ?L)) k else D k) = ?S k"
      by (simp only: c) (simp add: lane_arith(2)[OF m] cong: if_cong)
  qed
  note lp = generate_normal_loop_in_range[OF pos rr, of nx dist "word_of_nat m" "E m" D,
              unfolded st um, unfolded data]
  note tl = generate_normal_tail_lane[OF L m, of nx dist n "nth_state nx (E m) (2 * ?c)" ?S]
  show ?thesis
  proof (cases "m = 0 \<and> odd (unat n)")
    case False
    have nd: "normal_draws (unat n) ?L m = 2 * ?c"
      using False by (simp add: normal_draws_def)
    have tl': "generate_normal_tail nx dist n (word_of_nat m) (nth_state nx (E m) (2 * ?c), ?S)
                = (nth_state nx (E m) (2 * ?c), ?S)"
      by (simp only: tl[unfolded if_not_P[OF False]])
    have out: "(\<lambda>k. if k div 2 < ?h \<and> (k div 2) mod ?L = m
               then pair_slot (pair_draw nx dist (E m) ((k div 2) div ?L)) k
               else if m = 0 \<and> odd (unat n) \<and> k = unat n - 1
               then fst (pair_draw nx dist (E m) ?c)
               else D k) = ?S"
      using False by (intro ext) auto
    show ?thesis
      unfolding generate_normal_lane_def
      by (simp only: prod.case um lp option.case tl' nd out)
  next
    case True
    then have m0: "m = 0" and od: "odd (unat n)" by simp_all
    have nd: "normal_draws (unat n) ?L m = 2 * ?c + 2"
      using True by (simp add: normal_draws_def)
    have e2: "nth_state nx (nth_state nx (E m) (2 * ?c)) 2 = nth_state nx (E m) (2 * ?c + 2)"
      by (rule nth_state_add)
    have p: "pair_draw nx dist (nth_state nx (E m) (2 * ?c)) 0 = pair_draw nx dist (E m) ?c"
      using pair_draw_nth_state[of nx dist "E m" ?c 0] by simp
    have tl': "generate_normal_tail nx dist n (word_of_nat m) (nth_state nx (E m) (2 * ?c), ?S)
                = (nth_state nx (E m) (2 * ?c + 2),
                   ?S(unat n - 1 := fst (pair_draw nx dist (E m) ?c)))"
      by (simp only: tl[unfolded if_P[OF True]] e2 p)
    have half: "(unat n - 1) div 2 = ?h" using od by (rule odd_pred_half)
    have out: "(\<lambda>k. if k div 2 < ?h \<and> (k div 2) mod ?L = m
               then pair_slot (pair_draw nx dist (E m) ((k div 2) div ?L)) k
               else if m = 0 \<and> odd (unat n) \<and> k = unat n - 1
               then fst (pair_draw nx dist (E m) ?c)
               else D k) = ?S(unat n - 1 := fst (pair_draw nx dist (E m) ?c))"
    proof (rule ext)
      fix k
      show "(if k div 2 < ?h \<and> (k div 2) mod ?L = m
               then pair_slot (pair_draw nx dist (E m) ((k div 2) div ?L)) k
               else if m = 0 \<and> odd (unat n) \<and> k = unat n - 1
               then fst (pair_draw nx dist (E m) ?c)
               else D k) = (?S(unat n - 1 := fst (pair_draw nx dist (E m) ?c))) k"
      proof (cases "k = unat n - 1")
        case eq: True
        have "\<not> (k div 2 < ?h)" by (simp only: eq half)
        then show ?thesis using eq True by simp
      next
        case False
        then show ?thesis by simp
      qed
    qed
    show ?thesis
      unfolding generate_normal_lane_def
      by (simp only: prod.case um lp option.case tl' nd out)
  qed
qed

lemma generate_kernel_in_range:
  assumes pos: "0 < lanes g bd" and L: "lanes g bd < 2 ^ 32"
    and r: "unat n + lanes g bd \<le> 2 ^ 32"
  shows "generate_kernel nx g bd E D n dist =
    Some (swept_engines nx (sweep_count (unat n) (lanes g bd)) (lanes g bd) E,
          generate_output nx dist (lanes g bd) (unat n) E D)"
proof -
  have lt: "\<And>k. k mod lanes g bd < lanes g bd" using pos by simp
  show ?thesis
    unfolding swept_engines_def generate_output_def
    by (simp only: generate_kernel_lanes generate_kernel_prefix[OF L r le_refl] lt simp_thms)
qed

lemma generate_normal_kernel_prefix:
  assumes L: "lanes g bd < 2 ^ 32" and r: "unat n div 2 + lanes g bd \<le> 2 ^ 32"
  shows "m \<le> lanes g bd \<Longrightarrow>
    run_threads (generate_normal_lane nx (g * bd) n dist) (map word_of_nat [0..<m]) (E, D) =
    Some (\<lambda>i. if i < m then nth_state nx (E i) (normal_draws (unat n) (lanes g bd) i) else E i,
          \<lambda>k. if k div 2 < unat n div 2 \<and> (k div 2) mod lanes g bd < m
               then pair_slot (pair_draw nx dist (E ((k div 2) mod lanes g bd))
                                 ((k div 2) div lanes g bd)) k
               else if 0 < m \<and> odd (unat n) \<and> k = unat n - 1
               then fst (pair_draw nx dist (E 0) (sweep_count (unat n div 2) (lanes g bd) 0))
               else D k)"
proof (induction m)
  case 0
  show ?case by simp
next
  case (Suc m)
  let ?L = "lanes g bd" and ?h = "unat n div 2"
  let ?f = "\<lambda>i. nth_state nx (E i) (normal_draws (unat n) ?L i)"
  let ?o = "\<lambda>k. pair_slot (pair_draw nx dist (E ((k div 2) mod ?L)) ((k div 2) div ?L)) k"
  let ?t = "fst (pair_draw nx dist (E 0) (sweep_count ?h ?L 0))"
  let ?Em = "\<lambda>i. if i < m then ?f i else E i"
  let ?Dm = "\<lambda>k. if k div 2 < ?h \<and> (k div 2) mod ?L < m then ?o k
                  else if 0 < m \<and> odd (unat n) \<and> k = unat n - 1 then ?t else D k"
  from Suc have m: "m < ?L" and
    IH: "run_threads (generate_normal_lane nx (g * bd) n dist) (map word_of_nat [0..<m]) (E, D)
           = Some (?Em, ?Dm)"
    by simp_all
  have lane: "generate_normal_lane nx (g * bd) n dist (word_of_nat m) (?Em, ?Dm) =
    Some (?Em(m := nth_state nx (?Em m) (normal_draws (unat n) ?L m)),
          \<lambda>k. if k div 2 < ?h \<and> (k div 2) mod ?L = m
               then pair_slot (pair_draw nx dist (?Em m) ((k div 2) div ?L)) k
               else if m = 0 \<and> odd (unat n) \<and> k = unat n - 1
               then fst (pair_draw nx dist (?Em m) (sweep_count ?h ?L m))
               else ?Dm k)"
    by (rule generate_normal_lane_in_range[OF L m r])
  have E': "?Em(m := nth_state nx (?Em m) (normal_draws (unat n) ?L m))
             = (\<lambda>i. if i < Suc m then ?f i else E i)"
    by (rule ext) (simp add: less_Suc_eq)
  have D': "(\<lambda>k. if k div 2 < ?h \<and> (k div 2) mod ?L = m
               then pair_slot (pair_draw nx dist (?Em m) ((k div 2) div ?L)) k
               else if m = 0 \<and> odd (unat n) \<and> k = unat n - 1
               then fst (pair_draw nx dist (?Em m) (sweep_count ?h ?L m))
               else ?Dm k)
             = (\<lambda>k. if k div 2 < ?h \<and> (k div 2) mod ?L < Suc m then ?o k
                  else if 0 < Suc m \<and> odd (unat n) \<and> k = unat n - 1 then ?t else D k)"
    by (rule ext) (auto simp add: less_Suc_eq)
  have "run_threads (generate_normal_lane nx (g * bd) n dist) (map word_of_nat [0..<Suc m]) (E, D)
          = generate_normal_lane nx (g * bd) n dist (word_of_nat m) (?Em, ?Dm)"
    by (simp add: run_threads_snoc IH)
  also have "\<dots> = Some (\<lambda>i. if i < Suc m then ?f i else E i,
          \<lambda>k. if k div 2 < ?h \<and> (k div 2) mod ?L < Suc m then ?o k
                  else if 0 < Suc m \<and> odd (unat n) \<and> k = unat n - 1 then ?t else D k)"
    by (simp only: lane E' D')
  finally show ?case .
qed

lemma generate_normal_kernel_in_range:
  assumes pos: "0 < lanes g bd" and L: "lanes g bd < 2 ^ 32"
    and r: "unat n div 2 + lanes g bd \<le> 2 ^ 32"
  shows "generate_normal_kernel nx g bd E D n dist =
    Some (swept_engines nx (normal_draws (unat n) (lanes g bd)) (lanes g bd) E,
          normal_output nx dist (lanes g bd) (unat n) E D)"
proof -
  have lt: "\<And>k. k mod lanes g bd < lanes g bd" using pos by simp
  show ?thesis
    unfolding swept_engines_def normal_output_def
    by (simp only: generate_normal_kernel_lanes generate_normal_kernel_prefix[OF L r le_refl]
          lt pos simp_thms)
qed

subsection \<open>Idle lanes and the frame of a thread\<close>










subsection \<open>The labelled engine\<close>

lemma label_nth_state: "nth_state label_next (l, c) k = (l, c + k)"
  by (induction k arbitrary: c) (simp_all add: label_next_def)

lemma label_nth_draw: "nth_draw label_next (l, c) k = (l, c + k)"
  by (simp add: nth_draw_def label_nth_state label_next_def)

subsection \<open>init_engines_kernel and init\<close>

lemma init_engines_prefix:
  "m \<le> 2 ^ 32 \<Longrightarrow>
   fold (\<lambda>engine_id E. E(unat engine_id := ctor seed engine_id offset))
     (map (word_of_nat :: nat \<Rightarrow> 32 word) [0..<m]) E
   = (\<lambda>i. if i < m then ctor seed (word_of_nat i) offset else E i)"
proof (induction m)
  case 0
  show ?case by simp
next
  case (Suc m)
  from Suc.prems have lt: "m < 2 ^ 32" by simp
  then have le: "m \<le> 2 ^ 32" by simp
  note IH = Suc.IH[OF le]
  have um: "unat (word_of_nat m :: 32 word) = m" using lt by (simp add: unat_of_nat)
  have "fold (\<lambda>engine_id E. E(unat engine_id := ctor seed engine_id offset))
           (map (word_of_nat :: nat \<Rightarrow> 32 word) [0..<Suc m]) E
        = (\<lambda>i. if i < m then ctor seed (word_of_nat i) offset else E i)
            (m := ctor seed (word_of_nat m) offset)"
    by (simp add: IH um)
  also have "\<dots> = (\<lambda>i. if i < Suc m then ctor seed (word_of_nat i) offset else E i)"
    by (rule ext) (simp add: less_Suc_eq)
  finally show ?case .
qed

lemma init_engines_kernel_closed:
  assumes "lanes g bd \<le> 2 ^ 32"
  shows "init_engines_kernel ctor g bd E seed offset
           = (\<lambda>i. if i < lanes g bd then ctor seed (word_of_nat i) offset else E i)"
proof -
  have b: "(\<lambda>tid. init_engines_kernel_thread ctor bd tid seed offset)
        = (\<lambda>engine_id E. E(unat engine_id := ctor seed engine_id offset)) \<circ> (\<lambda>(b, t). b * bd + t)"
    by (intro ext) (simp add: init_engines_kernel_thread_def Let_def split: prod.splits)
  have "init_engines_kernel ctor g bd E seed offset
        = fold (\<lambda>engine_id E. E(unat engine_id := ctor seed engine_id offset))
            (map (\<lambda>(b, t). b * bd + t) (thread_ids g bd)) E"
    unfolding init_engines_kernel_def by (simp only: b fold_map)
  then show ?thesis
    by (simp only: engine_ids init_engines_prefix[OF assms])
qed

lemma platform_lanes:
  "lanes (max_blocks HIP_PLATFORM_HCC) (threads HIP_PLATFORM_HCC) = 262144"
  "lanes (max_blocks HIP_PLATFORM_NVCC) (threads HIP_PLATFORM_NVCC) = 16384"
  by (simp_all add: lanes_def)

lemma platform_lanes_pos: "0 < lanes (max_blocks pf) (threads pf)"
  by (cases pf) (simp_all add: lanes_def)

lemma platform_lanes_lt: "lanes (max_blocks pf) (threads pf) < 2 ^ 32"
  by (cases pf) (simp_all add: lanes_def)

lemma platform_lanes_le: "lanes (max_blocks pf) (threads pf) \<le> 2 ^ 32"
  by (cases pf) (simp_all add: lanes_def)

lemma init_closed:
  "init ctor pf peek this =
     (if m_engines_initialized this then (ROCRAND_STATUS_SUCCESS, this)
      else if peek = hipSuccess
      then (ROCRAND_STATUS_SUCCESS,
            this\<lparr>m_engines := pool_after_init ctor pf this, m_engines_initialized := True\<rparr>)
      else (ROCRAND_STATUS_LAUNCH_FAILURE, this))"
  by (simp add: init_def Let_def pool_after_init_def
        init_engines_kernel_closed[OF platform_lanes_le])

section \<open>The kernels when the index wraps\<close>

text \<open>
  A loop of either kernel returns only if its bound fits in 32 bits: otherwise the
  32-bit \<open>index\<close> is below the bound whatever its value, and the loop never exits.
\<close>

lemma unat32_lt: "unat (i :: 32 word) < 2 ^ 32"
  using unsigned_less[of i, where 'a = nat] by simp

lemma generate_loop_returns_small:
  assumes "generate_loop nx dist n stride index e d = Some y"
  shows "unat n < 2 ^ 32"
proof (rule generate_loop.raw_induct[where P = "\<lambda>_ _ n _ _ _ _ _. unat n < 2 ^ 32", OF _ assms],
       goal_cases)
  case (1 f nx dist n stride index e d y)
  show ?case
  proof (cases "ucast index < n")
    case True
    obtain r e' where nx: "nx e = (r, e')" by (cases "nx e")
    from 1(2) True nx
    have "f nx dist n stride (index + stride) e' (d(unat index := dist r)) = Some y"
      by simp
    from 1(1)[OF this] show ?thesis .
  next
    case False
    then have "unat n \<le> unat index" by (simp add: ucast_less_iff)
    with unat32_lt[of index] show ?thesis by arith
  qed
qed

lemma generate_normal_loop_returns_small:
  assumes "generate_normal_loop nx dist n stride index e d = Some y"
  shows "unat n div 2 < 2 ^ 32"
proof (rule generate_normal_loop.raw_induct[where P = "\<lambda>_ _ n _ _ _ _ _. unat n div 2 < 2 ^ 32",
         OF _ assms], goal_cases)
  case (1 f nx dist n stride index e d y)
  show ?case
  proof (cases "ucast index < n div 2")
    case True
    obtain r1 e1 where nx1: "nx e = (r1, e1)" by (cases "nx e")
    obtain r2 e2 where nx2: "nx e1 = (r2, e2)" by (cases "nx e1")
    obtain x z where xz: "dist r1 r2 = (x, z)" by (cases "dist r1 r2")
    from 1(2) True nx1 nx2 xz
    have "f nx dist n stride (index + stride) e2
            (d(2 * unat index := x, 2 * unat index + 1 := z)) = Some y"
      by simp
    from 1(1)[OF this] show ?thesis .
  next
    case False
    then have "unat n div 2 \<le> unat index" by (simp add: ucast_less_half_iff)
    with unat32_lt[of index] show ?thesis by arith
  qed
qed

lemma run_threads_first_hangs:
  assumes "0 < l" and "body (word_of_nat 0) s = None"
  shows "run_threads body (map word_of_nat [0..<l]) s = None"
proof -
  have "[0..<l] = 0 # [Suc 0..<l]" using assms(1) by (rule upt_conv_Cons)
  then show ?thesis using assms(2) by simp
qed

lemma generate_kernel_never_returns:
  assumes "0 < lanes g bd" and "2 ^ 32 \<le> unat n"
  shows "generate_kernel nx g bd E D n dist = None"
proof -
  have "generate_loop nx dist n (g * bd) 0 (E 0) D = None"
  proof (cases "generate_loop nx dist n (g * bd) 0 (E 0) D")
    case (Some y)
    from generate_loop_returns_small[OF this] assms(2) show ?thesis by simp
  qed simp
  then have "generate_lane nx (g * bd) n dist (word_of_nat 0) (E, D) = None"
    by (simp add: generate_lane_def)
  then show ?thesis
    unfolding generate_kernel_lanes by (rule run_threads_first_hangs[OF assms(1)])
qed

lemma generate_normal_kernel_never_returns:
  assumes "0 < lanes g bd" and "2 ^ 32 \<le> unat n div 2"
  shows "generate_normal_kernel nx g bd E D n dist = None"
proof -
  have "generate_normal_loop nx dist n (g * bd) 0 (E 0) D = None"
  proof (cases "generate_normal_loop nx dist n (g * bd) 0 (E 0) D")
    case (Some y)
    from generate_normal_loop_returns_small[OF this] assms(2) show ?thesis by simp
  qed simp
  then have "generate_normal_lane nx (g * bd) n dist (word_of_nat 0) (E, D) = None"
    by (simp add: generate_normal_lane_def)
  then show ?thesis
    unfolding generate_normal_kernel_lanes by (rule run_threads_first_hangs[OF assms(1)])
qed

section \<open>The host functions when no index wraps\<close>

lemma init_success: "init ctor pf hipSuccess this = (ROCRAND_STATUS_SUCCESS, ready ctor pf this)"
  by (simp add: ready_def init_closed)

lemma ready_initialized: "m_engines_initialized (ready ctor pf this)"
  by (simp add: ready_def init_closed)

lemma init_noop: "m_engines_initialized this \<Longrightarrow> init ctor pf peek this = (ROCRAND_STATUS_SUCCESS, this)"
  by (simp add: init_closed)

lemma ready_noop: "m_engines_initialized this \<Longrightarrow> ready ctor pf this = this"
  by (simp add: ready_def init_closed)

lemma generate_closed:
  assumes "unat n + lanes (max_blocks pf) (threads pf) \<le> 2 ^ 32"
  shows "generate ctor nx pf hipSuccess hipSuccess this data n dist =
    Some (ROCRAND_STATUS_SUCCESS,
          (ready ctor pf this)\<lparr>m_engines :=
             swept_engines nx (sweep_count (unat n) (lanes (max_blocks pf) (threads pf)))
               (lanes (max_blocks pf) (threads pf)) (m_engines (ready ctor pf this))\<rparr>,
          generate_output nx dist (lanes (max_blocks pf) (threads pf)) (unat n)
            (m_engines (ready ctor pf this)) data)"
  unfolding generate_def
  by (simp only: init_success prod.case simp_thms if_False
        generate_kernel_in_range[OF platform_lanes_pos platform_lanes_lt assms] option.case)

lemma generate_normal_closed:
  assumes "unat n div 2 + lanes (max_blocks pf) (threads pf) \<le> 2 ^ 32"
  shows "generate_normal ctor nx pf mk hipSuccess hipSuccess this data n stddev mean =
    Some (ROCRAND_STATUS_SUCCESS,
          (ready ctor pf this)\<lparr>m_engines :=
             swept_engines nx (normal_draws (unat n) (lanes (max_blocks pf) (threads pf)))
               (lanes (max_blocks pf) (threads pf)) (m_engines (ready ctor pf this))\<rparr>,
          normal_output nx (mk mean stddev) (lanes (max_blocks pf) (threads pf)) (unat n)
            (m_engines (ready ctor pf this)) data)"
  unfolding generate_normal_def
  by (simp only: init_success prod.case simp_thms if_False Let_def
        generate_normal_kernel_in_range[OF platform_lanes_pos platform_lanes_lt assms] option.case)

lemma sweep_count_dvd:
  assumes L: "0 < L" and d: "L dvd k" and i: "i < L"
  shows "sweep_count k L i = k div L"
proof -
  from d obtain q where q: "k = L * q" by (rule dvdE)
  show ?thesis
  proof (cases q)
    case 0
    then have "k = 0" using q by simp
    then show ?thesis by (simp add: sweep_count_def)
  next
    case (Suc q')
    have k: "k = L * q' + L" using q Suc by simp
    then have ik: "i < k" using i by arith
    have "k - Suc i = (L - Suc i) + L * q'" using k i by arith
    then have "(k - Suc i) div L = q' + (L - Suc i) div L"
      using L by (simp only: div_mult_self2[OF less_imp_neq[OF L, symmetric]])
    moreover have "(L - Suc i) div L = 0" using i L by (intro div_less) arith
    ultimately have a: "(k - Suc i) div L = q'" by (simp only: add_0_right)
    have "k div L = Suc q'"
      using L by (simp only: q Suc nonzero_mult_div_cancel_left[OF less_imp_neq[OF L, symmetric]])
    then show ?thesis using ik a by (simp only: sweep_count_def if_True)
  qed
qed

lemma output_list:
  "map (generate_output nx dist L n E D) [0..<n]
     = map (\<lambda>j. dist (nth_draw nx (E (j mod L)) (j div L))) [0..<n]"
  by (rule map_cong) (simp_all add: generate_output_def)

lemma output_list_after:
  assumes "0 < L"
  shows "map (generate_output nx dist L m (swept_engines nx c L E) D) [0..<m]
     = map (\<lambda>j. dist (nth_draw nx (E (j mod L)) (c (j mod L) + j div L))) [0..<m]"
proof (rule map_cong[OF refl])
  fix j assume "j \<in> set [0..<m]"
  then have jm: "j < m" by simp
  have "j mod L < L" using assms by simp
  then have "swept_engines nx c L E (j mod L) = nth_state nx (E (j mod L)) (c (j mod L))"
    by (simp add: swept_engines_def)
  then show "generate_output nx dist L m (swept_engines nx c L E) D j
           = dist (nth_draw nx (E (j mod L)) (c (j mod L) + j div L))"
    using jm by (simp add: generate_output_def nth_draw_nth_state)
qed

lemma one_call_closed:
  assumes "unat n + lanes (max_blocks pf) (threads pf) \<le> 2 ^ 32"
  shows "one_call ctor nx pf this data n dist =
    Some (map (\<lambda>j. dist (nth_draw nx
                 (m_engines (ready ctor pf this) (j mod lanes (max_blocks pf) (threads pf)))
                 (j div lanes (max_blocks pf) (threads pf)))) [0..<unat n])"
  unfolding one_call_def
  by (simp only: generate_closed[OF assms] option.case prod.case output_list)

lemma two_calls_closed:
  assumes rk: "unat k + lanes (max_blocks pf) (threads pf) \<le> 2 ^ 32"
    and rn: "unat (n - k) + lanes (max_blocks pf) (threads pf) \<le> 2 ^ 32"
  shows "two_calls ctor nx pf this d1 d2 k n dist =
    Some (map (\<lambda>j. dist (nth_draw nx
                 (m_engines (ready ctor pf this) (j mod lanes (max_blocks pf) (threads pf)))
                 (j div lanes (max_blocks pf) (threads pf)))) [0..<unat k]
          @ map (\<lambda>j. dist (nth_draw nx
                 (m_engines (ready ctor pf this) (j mod lanes (max_blocks pf) (threads pf)))
                 (sweep_count (unat k) (lanes (max_blocks pf) (threads pf))
                    (j mod lanes (max_blocks pf) (threads pf))
                  + j div lanes (max_blocks pf) (threads pf)))) [0..<unat (n - k)])"
proof -
  let ?L = "lanes (max_blocks pf) (threads pf)"
  let ?R = "ready ctor pf this"
  let ?E1 = "swept_engines nx (sweep_count (unat k) ?L) ?L (m_engines ?R)"
  let ?R1 = "?R\<lparr>m_engines := ?E1\<rparr>"
  have r1: "ready ctor pf ?R1 = ?R1" by (rule ready_noop) (simp add: ready_initialized)
  have e1: "m_engines ?R1 = ?E1" by simp
  note g2 = generate_closed[OF rn, of ctor nx ?R1 d2 dist, unfolded r1 e1]
  show ?thesis
    unfolding two_calls_def
    by (simp only: generate_closed[OF rk] option.case prod.case g2
          output_list_after[OF platform_lanes_pos])
       (simp only: output_list)
qed

lemma shifted_outputs:
  assumes L: "0 < L" and d: "L dvd k"
  shows "map (\<lambda>j. f (E (j mod L)) (sweep_count k L (j mod L) + j div L)) [0..<m]
       = map (\<lambda>j. f (E (j mod L)) (j div L)) [k..<m + k]"
proof -
  from d obtain q where q: "k = L * q" by (rule dvdE)
  have Lne: "L \<noteq> 0" using L by simp
  have "map (\<lambda>j. f (E (j mod L)) (j div L)) [k..<m + k]
      = map (\<lambda>j. f (E (j mod L)) (j div L)) (map (\<lambda>j. j + k) [0..<m])"
    by (simp only: map_add_upt)
  also have "\<dots> = map (\<lambda>j. f (E ((j + k) mod L)) ((j + k) div L)) [0..<m]"
    by (simp only: map_map comp_def)
  also have "\<dots> = map (\<lambda>j. f (E (j mod L)) (sweep_count k L (j mod L) + j div L)) [0..<m]"
  proof (rule map_cong[OF refl])
    fix j
    have jl: "j mod L < L" using L by simp
    have m: "(j + k) mod L = j mod L" by (simp only: q mod_mult_self2)
    have dv: "(j + k) div L = q + j div L" by (simp only: q div_mult_self2[OF Lne])
    have kq: "k div L = q" by (simp only: q nonzero_mult_div_cancel_left[OF Lne])
    have sc: "sweep_count k L (j mod L) = q"
      using sweep_count_dvd[OF L d jl] by (simp only: kq)
    show "f (E ((j + k) mod L)) ((j + k) div L)
        = f (E (j mod L)) (sweep_count k L (j mod L) + j div L)"
      by (simp only: m dv sc)
  qed
  finally show ?thesis by (rule sym)
qed

lemma fresh_pool:
  "m_engines (ready label_ctor HIP_PLATFORM_HCC fresh_generator)
     = (\<lambda>i. if i < 262144 then (i, 0) else (0, 0))"
proof (rule ext)
  fix i :: nat
  have "i < 262144 \<Longrightarrow> unat (word_of_nat i :: 32 word) = i" by (simp add: unat_of_nat)
  then show "m_engines (ready label_ctor HIP_PLATFORM_HCC fresh_generator) i
              = (if i < 262144 then (i, 0) else (0, 0))"
    by (simp add: ready_def init_closed pool_after_init_def lanes_def label_ctor_def
          fresh_generator_def)
qed

subsection \<open>A launch on a pool that earlier launches advanced\<close>



section \<open>Launches whose index wraps, and sequences of calls\<close>

subsection \<open>A launch with a power-of-two number of lanes never returns once its index wraps\<close>

text \<open>
  The stride of lane 0 divides \<open>2 ^ 32\<close>, so its index, a multiple of the stride, steps
  from the last multiple below \<open>2 ^ 32\<close> back to 0 without ever reaching a bound \<open>n\<close> with
  \<open>2 ^ 32 < n + stride\<close>.
\<close>

lemma multiple_room:
  assumes sd: "s dvd (2::nat) ^ 32" and al: "s dvd i" and lt: "i < 2 ^ 32"
  shows "i + s \<le> 2 ^ 32"
proof -
  have "s dvd 2 ^ 32 - i" using sd al by (rule dvd_diff_nat)
  moreover have "0 < (2::nat) ^ 32 - i" using lt by simp
  ultimately have "s \<le> 2 ^ 32 - i" by (rule dvd_imp_le)
  then show ?thesis using lt by arith
qed

lemma wrapped_multiple:
  assumes sd: "unat (stride :: 32 word) dvd 2 ^ 32" and al: "unat stride dvd unat index"
  shows "unat stride dvd unat (index + stride)"
proof -
  have "unat stride dvd unat index + unat stride" using al by (rule dvd_add) (rule dvd_refl)
  then have "unat stride dvd (unat index + unat stride) mod 2 ^ 32" using sd by (rule dvd_mod)
  then show ?thesis by (simp add: unat_word_ariths(1))
qed

lemma generate_loop_wraps:
  assumes y: "generate_loop nx dist n stride index e d = Some y"
  shows "\<not> (unat stride dvd 2 ^ 32 \<and> 2 ^ 32 < unat n + unat stride \<and> unat stride dvd unat index)"
proof (rule generate_loop.raw_induct[where P = "\<lambda>_ _ n stride index _ _ _.
          \<not> (unat stride dvd 2 ^ 32 \<and> 2 ^ 32 < unat n + unat stride \<and> unat stride dvd unat index)",
        OF _ y], goal_cases)
  case (1 f nx dist n stride index e d y)
  show ?case
  proof
    assume a: "unat stride dvd 2 ^ 32 \<and> 2 ^ 32 < unat n + unat stride \<and> unat stride dvd unat index"
    then have sd: "unat stride dvd 2 ^ 32" and big: "2 ^ 32 < unat n + unat stride"
      and al: "unat stride dvd unat index" by simp_all
    have "unat index + unat stride \<le> 2 ^ 32" using sd al unat32_lt by (rule multiple_room)
    with big have "unat index < unat n" by arith
    then have c: "ucast index < n" by (simp only: ucast_less_iff)
    obtain r e' where nx: "nx e = (r, e')" by (cases "nx e")
    from 1(2) c nx
    have "f nx dist n stride (index + stride) e' (d(unat index := dist r)) = Some y"
      by simp
    from 1(1)[OF this] sd big wrapped_multiple[OF sd al] show False by simp
  qed
qed

lemma generate_normal_loop_wraps:
  assumes y: "generate_normal_loop nx dist n stride index e d = Some y"
  shows "\<not> (unat stride dvd 2 ^ 32 \<and> 2 ^ 32 < unat n div 2 + unat stride
            \<and> unat stride dvd unat index)"
proof (rule generate_normal_loop.raw_induct[where P = "\<lambda>_ _ n stride index _ _ _.
          \<not> (unat stride dvd 2 ^ 32 \<and> 2 ^ 32 < unat n div 2 + unat stride
              \<and> unat stride dvd unat index)",
        OF _ y], goal_cases)
  case (1 f nx dist n stride index e d y)
  show ?case
  proof
    assume a: "unat stride dvd 2 ^ 32 \<and> 2 ^ 32 < unat n div 2 + unat stride
                \<and> unat stride dvd unat index"
    then have sd: "unat stride dvd 2 ^ 32" and big: "2 ^ 32 < unat n div 2 + unat stride"
      and al: "unat stride dvd unat index" by simp_all
    have "unat index + unat stride \<le> 2 ^ 32" using sd al unat32_lt by (rule multiple_room)
    with big have "unat index < unat n div 2" by arith
    then have c: "ucast index < n div 2" by (simp only: ucast_less_half_iff)
    obtain r1 e1 where nx1: "nx e = (r1, e1)" by (cases "nx e")
    obtain r2 e2 where nx2: "nx e1 = (r2, e2)" by (cases "nx e1")
    obtain x z where xz: "dist r1 r2 = (x, z)" by (cases "dist r1 r2")
    from 1(2) c nx1 nx2 xz
    have "f nx dist n stride (index + stride) e2
            (d(2 * unat index := x, 2 * unat index + 1 := z)) = Some y"
      by simp
    from 1(1)[OF this] sd big wrapped_multiple[OF sd al] show False by simp
  qed
qed

lemma generate_kernel_wraps:
  assumes pos: "0 < lanes g bd" and lt: "lanes g bd < 2 ^ 32" and sd: "lanes g bd dvd 2 ^ 32"
    and big: "2 ^ 32 < unat n + lanes g bd"
  shows "generate_kernel nx g bd E D n dist = None"
proof -
  have st: "unat (g * bd) = lanes g bd"
    using lt unat_mult_lem[of g bd] by (simp add: lanes_def)
  have "generate_loop nx dist n (g * bd) 0 (E 0) D = None"
  proof (cases "generate_loop nx dist n (g * bd) 0 (E 0) D")
    case (Some y)
    from generate_loop_wraps[OF this] sd big show ?thesis by (simp add: st)
  qed simp
  then have "generate_lane nx (g * bd) n dist (word_of_nat 0) (E, D) = None"
    by (simp add: generate_lane_def)
  then show ?thesis
    unfolding generate_kernel_lanes by (rule run_threads_first_hangs[OF pos])
qed

lemma generate_normal_kernel_wraps:
  assumes pos: "0 < lanes g bd" and lt: "lanes g bd < 2 ^ 32" and sd: "lanes g bd dvd 2 ^ 32"
    and big: "2 ^ 32 < unat n div 2 + lanes g bd"
  shows "generate_normal_kernel nx g bd E D n dist = None"
proof -
  have st: "unat (g * bd) = lanes g bd"
    using lt unat_mult_lem[of g bd] by (simp add: lanes_def)
  have "generate_normal_loop nx dist n (g * bd) 0 (E 0) D = None"
  proof (cases "generate_normal_loop nx dist n (g * bd) 0 (E 0) D")
    case (Some y)
    from generate_normal_loop_wraps[OF this] sd big show ?thesis by (simp add: st)
  qed simp
  then have "generate_normal_lane nx (g * bd) n dist (word_of_nat 0) (E, D) = None"
    by (simp add: generate_normal_lane_def)
  then show ?thesis
    unfolding generate_normal_kernel_lanes by (rule run_threads_first_hangs[OF pos])
qed

lemma platform_lanes_dvd: "lanes (max_blocks pf) (threads pf) dvd 2 ^ 32"
proof (cases pf)
  case HIP_PLATFORM_HCC
  have "(262144::nat) * 16384 = 2 ^ 32" by simp
  then have "(262144::nat) dvd 2 ^ 32" by (metis dvd_triv_left)
  then show ?thesis using HIP_PLATFORM_HCC by (simp add: lanes_def)
next
  case HIP_PLATFORM_NVCC
  have "(16384::nat) * 262144 = 2 ^ 32" by simp
  then have "(16384::nat) dvd 2 ^ 32" by (metis dvd_triv_left)
  then show ?thesis using HIP_PLATFORM_NVCC by (simp add: lanes_def)
qed

lemma generate_kernel_platform:
  "generate_kernel nx (max_blocks pf) (threads pf) E D n dist =
     (if unat n + lanes (max_blocks pf) (threads pf) \<le> 2 ^ 32
      then Some (swept_engines nx (sweep_count (unat n) (lanes (max_blocks pf) (threads pf)))
                   (lanes (max_blocks pf) (threads pf)) E,
                 generate_output nx dist (lanes (max_blocks pf) (threads pf)) (unat n) E D)
      else None)"
proof (cases "unat n + lanes (max_blocks pf) (threads pf) \<le> 2 ^ 32")
  case True
  then show ?thesis
    by (simp only: generate_kernel_in_range[OF platform_lanes_pos platform_lanes_lt True] if_True)
next
  case False
  then have "2 ^ 32 < unat n + lanes (max_blocks pf) (threads pf)" by simp
  from generate_kernel_wraps[OF platform_lanes_pos platform_lanes_lt platform_lanes_dvd this]
  show ?thesis using False by (simp only: if_False)
qed

lemma generate_normal_kernel_platform:
  "generate_normal_kernel nx (max_blocks pf) (threads pf) E D n dist =
     (if unat n div 2 + lanes (max_blocks pf) (threads pf) \<le> 2 ^ 32
      then Some (swept_engines nx (normal_draws (unat n) (lanes (max_blocks pf) (threads pf)))
                   (lanes (max_blocks pf) (threads pf)) E,
                 normal_output nx dist (lanes (max_blocks pf) (threads pf)) (unat n) E D)
      else None)"
proof (cases "unat n div 2 + lanes (max_blocks pf) (threads pf) \<le> 2 ^ 32")
  case True
  then show ?thesis
    by (simp only: generate_normal_kernel_in_range[OF platform_lanes_pos platform_lanes_lt True]
          if_True)
next
  case False
  then have "2 ^ 32 < unat n div 2 + lanes (max_blocks pf) (threads pf)" by simp
  from generate_normal_kernel_wraps[OF platform_lanes_pos platform_lanes_lt platform_lanes_dvd this]
  show ?thesis using False by (simp only: if_False)
qed

subsection \<open>The host functions for every size and every answer of the runtime\<close>

lemma generate_all:
  "generate ctor nx pf peek_init peek this data n dist =
     (if fst (init ctor pf peek_init this) \<noteq> ROCRAND_STATUS_SUCCESS
      then Some (fst (init ctor pf peek_init this), snd (init ctor pf peek_init this), data)
      else if peek \<noteq> hipSuccess
      then Some (ROCRAND_STATUS_LAUNCH_FAILURE, snd (init ctor pf peek_init this), data)
      else if unat n + lanes (max_blocks pf) (threads pf) \<le> 2 ^ 32
      then Some (ROCRAND_STATUS_SUCCESS,
                 (snd (init ctor pf peek_init this))\<lparr>m_engines :=
                    swept_engines nx (sweep_count (unat n) (lanes (max_blocks pf) (threads pf)))
                      (lanes (max_blocks pf) (threads pf))
                      (m_engines (snd (init ctor pf peek_init this)))\<rparr>,
                 generate_output nx dist (lanes (max_blocks pf) (threads pf)) (unat n)
                   (m_engines (snd (init ctor pf peek_init this))) data)
      else None)"
  unfolding generate_def generate_kernel_platform
  by (cases "init ctor pf peek_init this") simp

lemma generate_normal_all:
  "generate_normal ctor nx pf mk peek_init peek this data n stddev mean =
     (if fst (init ctor pf peek_init this) \<noteq> ROCRAND_STATUS_SUCCESS
      then Some (fst (init ctor pf peek_init this), snd (init ctor pf peek_init this), data)
      else if peek \<noteq> hipSuccess
      then Some (ROCRAND_STATUS_LAUNCH_FAILURE, snd (init ctor pf peek_init this), data)
      else if unat n div 2 + lanes (max_blocks pf) (threads pf) \<le> 2 ^ 32
      then Some (ROCRAND_STATUS_SUCCESS,
                 (snd (init ctor pf peek_init this))\<lparr>m_engines :=
                    swept_engines nx (normal_draws (unat n) (lanes (max_blocks pf) (threads pf)))
                      (lanes (max_blocks pf) (threads pf))
                      (m_engines (snd (init ctor pf peek_init this)))\<rparr>,
                 normal_output nx (mk mean stddev) (lanes (max_blocks pf) (threads pf)) (unat n)
                   (m_engines (snd (init ctor pf peek_init this))) data)
      else None)"
  unfolding generate_normal_def generate_normal_kernel_platform
  by (cases "init ctor pf peek_init this") (simp add: Let_def)

lemma generate_log_normal_eq:
  "generate_log_normal ctor nx pf mk peek_init peek this data n stddev mean =
     generate_normal ctor nx pf mk peek_init peek this data n stddev mean"
  by (simp only: generate_log_normal_def generate_normal_def)

lemma init_sets_flag:
  "fst (init ctor pf peek this) = ROCRAND_STATUS_SUCCESS
     \<Longrightarrow> m_engines_initialized (snd (init ctor pf peek this))"
  by (simp add: init_closed split: if_splits)

lemma ctor_closed:
  "rocrand_mrg32k3a_ctor d (hipSuccess, mem) poisson0 seed offset stream =
     Inr \<lparr>m_seed = (if seed = 0 then d else seed), m_offset = offset, m_stream = stream,
          m_engines_initialized = False, m_engines = mem, m_engines_size = 1024 * 256,
          poisson = poisson0\<rparr>"
  by (simp add: rocrand_mrg32k3a_ctor_def Let_def)

subsection \<open>Every call preserves the invariant of the flag\<close>

lemma init_current:
  assumes "engines_current ext this"
  shows "engines_current ext (snd (init (lib_engine_ctor ext) (lib_platform ext) peek this))"
proof (cases "m_engines_initialized this")
  case True
  then show ?thesis using assms by (simp add: init_closed)
next
  case False
  show ?thesis
  proof (cases "peek = hipSuccess")
    case True
    have "\<And>e. \<exists>c. e = nth_state (lib_engine_next ext) e c"
      by (rule exI[of _ 0]) simp
    then show ?thesis using False True
      by (simp add: init_closed engines_current_def pool_after_init_def)
  next
    case f: False
    then show ?thesis using False by (simp add: init_closed engines_current_def)
  qed
qed

lemma swept_current:
  assumes "engines_current ext this"
  shows "engines_current ext
           (this\<lparr>m_engines :=
              swept_engines (lib_engine_next ext) draws
                (lanes (max_blocks (lib_platform ext)) (threads (lib_platform ext)))
                (m_engines this)\<rparr>)"
  unfolding engines_current_def
proof (intro impI allI)
  fix i
  assume fl: "m_engines_initialized
                (this\<lparr>m_engines :=
                   swept_engines (lib_engine_next ext) draws
                     (lanes (max_blocks (lib_platform ext)) (threads (lib_platform ext)))
                     (m_engines this)\<rparr>)"
    and i: "i < lanes (max_blocks (lib_platform ext)) (threads (lib_platform ext))"
  from fl have "m_engines_initialized this" by simp
  with assms i obtain c where
    c: "m_engines this i =
          nth_state (lib_engine_next ext)
            (lib_engine_ctor ext (m_seed this) (word_of_nat i) (m_offset this)) c"
    unfolding engines_current_def by blast
  show "\<exists>c. m_engines
              (this\<lparr>m_engines :=
                 swept_engines (lib_engine_next ext) draws
                   (lanes (max_blocks (lib_platform ext)) (threads (lib_platform ext)))
                   (m_engines this)\<rparr>) i =
            nth_state (lib_engine_next ext)
              (lib_engine_ctor ext
                 (m_seed (this\<lparr>m_engines :=
                    swept_engines (lib_engine_next ext) draws
                      (lanes (max_blocks (lib_platform ext)) (threads (lib_platform ext)))
                      (m_engines this)\<rparr>)) (word_of_nat i)
                 (m_offset (this\<lparr>m_engines :=
                    swept_engines (lib_engine_next ext) draws
                      (lanes (max_blocks (lib_platform ext)) (threads (lib_platform ext)))
                      (m_engines this)\<rparr>))) c"
    by (rule exI[of _ "c + draws i"]) (simp add: swept_engines_def i c nth_state_add)
qed

lemma generate_current:
  assumes inv: "engines_current ext this"
    and r: "generate (lib_engine_ctor ext) (lib_engine_next ext) (lib_platform ext)
              peek_init peek this data n dist = Some (status, this', data')"
  shows "engines_current ext this'"
proof -
  note i = init_current[OF inv, of peek_init]
  from r show ?thesis
    unfolding generate_all
    by (auto split: if_splits simp: i swept_current[OF i])
qed

lemma generate_normal_current:
  assumes inv: "engines_current ext this"
    and r: "generate_normal (lib_engine_ctor ext) (lib_engine_next ext) (lib_platform ext)
              mk peek_init peek this data n stddev mean = Some (status, this', data')"
  shows "engines_current ext this'"
proof -
  note i = init_current[OF inv, of peek_init]
  from r show ?thesis
    unfolding generate_normal_all
    by (auto split: if_splits simp: i swept_current[OF i])
qed

lemma poisson_current:
  "engines_current ext this \<Longrightarrow> engines_current ext (this\<lparr>poisson := p\<rparr>)"
  by (simp add: engines_current_def)

lemma observed_Some:
  "observed n r = Some (this', out) \<Longrightarrow> \<exists>status data'. r = Some (status, this', data')"
  by (auto simp: observed_def split: option.splits)

lemma apply_call_current:
  assumes inv: "engines_current ext this"
    and r: "apply_call ext c this data = Some (this', out)"
  shows "engines_current ext this'"
proof (cases c)
  case Reset
  with r show ?thesis by (auto simp: reset_def engines_current_def)
next
  case (Set_seed seed)
  with r show ?thesis by (auto simp: set_seed_def engines_current_def)
next
  case (Set_offset offset)
  with r show ?thesis by (auto simp: set_offset_def engines_current_def)
next
  case (Init peek)
  with r init_current[OF inv, of peek] show ?thesis by (auto split: prod.splits)
next
  case (Generate peek_init peek n dist)
  with r obtain status data' where
    "generate (lib_engine_ctor ext) (lib_engine_next ext) (lib_platform ext)
       peek_init peek this data n dist = Some (status, this', data')"
    by (auto dest: observed_Some)
  with inv show ?thesis by (rule generate_current)
next
  case (Generate_uniform peek_init peek n)
  with r obtain status data' where
    "generate (lib_engine_ctor ext) (lib_engine_next ext) (lib_platform ext)
       peek_init peek this data n (lib_uniform_distribution ext) = Some (status, this', data')"
    by (auto dest: observed_Some simp: generate_uniform_def)
  with inv show ?thesis by (rule generate_current)
next
  case (Generate_normal peek_init peek n stddev mean)
  with r obtain status data' where
    "generate_normal (lib_engine_ctor ext) (lib_engine_next ext) (lib_platform ext)
       (lib_normal_distribution ext) peek_init peek this data n stddev mean
       = Some (status, this', data')"
    by (auto dest: observed_Some)
  with inv show ?thesis by (rule generate_normal_current)
next
  case (Generate_log_normal peek_init peek n stddev mean)
  with r obtain status data' where
    "generate_normal (lib_engine_ctor ext) (lib_engine_next ext) (lib_platform ext)
       (lib_log_normal_distribution ext) peek_init peek this data n stddev mean
       = Some (status, this', data')"
    by (auto dest: observed_Some simp: generate_log_normal_eq)
  with inv show ?thesis by (rule generate_normal_current)
next
  case (Generate_poisson peek_init peek n lambda)
  with r obtain status data' where
    g: "generate_poisson (lib_engine_ctor ext) (lib_engine_next ext) (lib_platform ext)
       (lib_set_lambda ext) (lib_dis ext) peek_init peek this data n lambda
       = Some (status, this', data')"
    by (auto dest: observed_Some)
  obtain thrown p where sl: "lib_set_lambda ext (poisson this) lambda = (thrown, p)"
    by (cases "lib_set_lambda ext (poisson this) lambda")
  show ?thesis
  proof (cases thrown)
    case None
    with g sl have "generate (lib_engine_ctor ext) (lib_engine_next ext) (lib_platform ext)
       peek_init peek (this\<lparr>poisson := p\<rparr>) data n (lib_dis ext p) = Some (status, this', data')"
      by (simp add: generate_poisson_def)
    with poisson_current[OF inv] show ?thesis by (rule generate_current)
  next
    case (Some st)
    with g sl have "this' = this\<lparr>poisson := p\<rparr>" by (simp add: generate_poisson_def)
    with poisson_current[OF inv] show ?thesis by simp
  qed
qed

lemma run_calls_current:
  assumes "engines_current ext this"
    and "run_calls ext calls buffers this = Some (this', outs)"
  shows "engines_current ext this'"
  using assms
proof (induction calls arbitrary: buffers this outs)
  case Nil
  then show ?case by simp
next
  case (Cons c cs)
  from Cons.prems(2) obtain this1 out outs1 where
    a: "apply_call ext c this (buffers 0) = Some (this1, out)"
    and b: "run_calls ext cs (\<lambda>i. buffers (Suc i)) this1 = Some (this', outs1)"
    by (auto split: option.splits)
  from apply_call_current[OF Cons.prems(1) a] b show ?case by (rule Cons.IH)
qed

lemma ctor_current:
  "rocrand_mrg32k3a_ctor d m p0 seed offset stream = Inr this \<Longrightarrow> engines_current ext this"
  by (auto simp: rocrand_mrg32k3a_ctor_def Let_def engines_current_def split: if_splits)

lemma run_current:
  assumes "run ext m poisson0 seed offset stream calls B = Inr (Some (that, outs))"
  shows "engines_current ext that"
proof (cases "rocrand_mrg32k3a_ctor (lib_default_seed ext) m poisson0 seed offset stream")
  case (Inl a)
  with assms show ?thesis by (simp add: run_def)
next
  case (Inr this0)
  with assms have "run_calls ext calls B this0 = Some (that, outs)" by (simp add: run_def)
  with ctor_current[OF Inr] show ?thesis by (rule run_calls_current)
qed

subsection \<open>Calls that fit return\<close>

lemma observed_returns: "r \<noteq> None \<Longrightarrow> observed n r \<noteq> None"
  by (auto simp: observed_def)

lemma generate_returns:
  "unat n + lanes (max_blocks pf) (threads pf) \<le> 2 ^ 32
     \<Longrightarrow> generate ctor nx pf peek_init peek this data n dist \<noteq> None"
  by (simp add: generate_all)

lemma generate_normal_returns:
  "unat n div 2 + lanes (max_blocks pf) (threads pf) \<le> 2 ^ 32
     \<Longrightarrow> generate_normal ctor nx pf mk peek_init peek this data n stddev mean \<noteq> None"
  by (simp add: generate_normal_all)

lemma generate_poisson_returns:
  "unat n + lanes (max_blocks pf) (threads pf) \<le> 2 ^ 32
     \<Longrightarrow> generate_poisson ctor nx pf sl dis peek_init peek this data n lambda \<noteq> None"
proof -
  assume r: "unat n + lanes (max_blocks pf) (threads pf) \<le> 2 ^ 32"
  obtain thrown q where sl: "sl (poisson this) lambda = (thrown, q)"
    by (cases "sl (poisson this) lambda")
  show ?thesis
  proof (cases thrown)
    case None
    then show ?thesis
      using sl generate_returns[OF r, of ctor nx peek_init peek "this\<lparr>poisson := q\<rparr>" data "dis q"]
      by (simp add: generate_poisson_def)
  next
    case (Some st)
    then show ?thesis using sl by (simp add: generate_poisson_def)
  qed
qed

lemma apply_call_returns:
  "call_fits (lib_platform ext) c \<Longrightarrow> apply_call ext c this data \<noteq> None"
proof (cases c)
  case (Init peek)
  then show ?thesis by (cases "init (lib_engine_ctor ext) (lib_platform ext) peek this") simp
qed (simp_all add: observed_returns generate_returns generate_normal_returns
       generate_poisson_returns generate_uniform_def generate_log_normal_eq)

lemma run_calls_returns:
  "\<forall>c \<in> set calls. call_fits (lib_platform ext) c \<Longrightarrow> run_calls ext calls B this \<noteq> None"
proof (induction calls arbitrary: B this)
  case Nil
  then show ?case by simp
next
  case (Cons c cs)
  then have "apply_call ext c this (B 0) \<noteq> None" by (simp add: apply_call_returns)
  then obtain t out where a: "apply_call ext c this (B 0) = Some (t, out)" by auto
  from Cons have "run_calls ext cs (\<lambda>i. B (Suc i)) t \<noteq> None" by simp
  then obtain u outs where "run_calls ext cs (\<lambda>i. B (Suc i)) t = Some (u, outs)" by auto
  with a show ?case by simp
qed

lemma run_returns:
  assumes "fst m = hipSuccess" and "\<forall>c \<in> set calls. call_fits (lib_platform ext) c"
  shows "\<exists>that outs. run ext m poisson0 seed offset stream calls B = Inr (Some (that, outs))"
proof -
  obtain mem where m: "m = (hipSuccess, mem)" using assms(1) by (cases m) simp
  from run_calls_returns[OF assms(2)] show ?thesis
    unfolding run_def m ctor_closed by auto
qed

subsection \<open>Generators that are alike give the same observations\<close>

lemma init_alike:
  assumes "alike pf this1 this2"
  shows "fst (init ctor pf peek this1) = fst (init ctor pf peek this2)"
    and "alike pf (snd (init ctor pf peek this1)) (snd (init ctor pf peek this2))"
  using assms by (simp_all add: init_closed alike_def pool_after_init_def)

lemma swept_alike:
  assumes a: "alike pf this1 this2"
  shows "alike pf
           (this1\<lparr>m_engines :=
              swept_engines nx draws (lanes (max_blocks pf) (threads pf)) (m_engines this1)\<rparr>)
           (this2\<lparr>m_engines :=
              swept_engines nx draws (lanes (max_blocks pf) (threads pf)) (m_engines this2)\<rparr>)"
  using a by (simp add: alike_def swept_engines_def)

lemma generate_output_alike:
  assumes L: "0 < L" and s: "\<forall>i<L. E1 i = E2 i"
  shows "map (generate_output nx dist L n E1 D1) [0..<n]
       = map (generate_output nx dist L n E2 D2) [0..<n]"
proof (rule map_cong[OF refl])
  fix k assume "k \<in> set [0..<n]"
  then have k: "k < n" by simp
  have "k mod L < L" using L by simp
  with s have "E1 (k mod L) = E2 (k mod L)" by blast
  then show "generate_output nx dist L n E1 D1 k = generate_output nx dist L n E2 D2 k"
    using k by (simp add: generate_output_def)
qed

lemma last_of_odd:
  assumes "k < (n::nat)" and "\<not> k div 2 < n div 2"
  shows "odd n \<and> k = n - 1"
  using assms by presburger

lemma normal_output_alike:
  assumes L: "0 < L" and s: "\<forall>i<L. E1 i = E2 i"
  shows "map (normal_output nx dist L n E1 D1) [0..<n]
       = map (normal_output nx dist L n E2 D2) [0..<n]"
proof (rule map_cong[OF refl])
  fix k assume "k \<in> set [0..<n]"
  then have k: "k < n" by simp
  have "(k div 2) mod L < L" using L by simp
  with s have a: "E1 ((k div 2) mod L) = E2 ((k div 2) mod L)" by blast
  from s L have z: "E1 0 = E2 0" by blast
  show "normal_output nx dist L n E1 D1 k = normal_output nx dist L n E2 D2 k"
  proof (cases "k div 2 < n div 2")
    case True
    then show ?thesis by (simp add: normal_output_def a)
  next
    case False
    from last_of_odd[OF k False] have "odd n \<and> k = n - 1" .
    then show ?thesis using False by (simp add: normal_output_def z)
  qed
qed

lemma generate_alike:
  assumes a: "alike pf this1 this2"
  shows "rel_option (rel_prod (alike pf) (=))
           (observed n (generate ctor nx pf peek_init peek this1 D1 n dist))
           (observed n (generate ctor nx pf peek_init peek this2 D2 n dist))"
proof -
  define I1 where "I1 = init ctor pf peek_init this1"
  define I2 where "I2 = init ctor pf peek_init this2"
  note ia = init_alike[OF a, of ctor peek_init, folded I1_def I2_def]
  let ?L = "lanes (max_blocks pf) (threads pf)"
  show ?thesis
  proof (cases "fst I1 = ROCRAND_STATUS_SUCCESS \<and> peek = hipSuccess")
    case False
    then show ?thesis
      using ia(1,2)
      by (auto simp: generate_all observed_def I1_def[symmetric] I2_def[symmetric])
  next
    case True
    then have fl: "m_engines_initialized (snd I1)" using init_sets_flag[of ctor pf peek_init this1] by (simp add: I1_def)
    with ia(2) have s: "\<forall>i<?L. m_engines (snd I1) i = m_engines (snd I2) i"
      by (simp add: alike_def)
    note o = generate_output_alike[OF platform_lanes_pos s, of nx dist "unat n" D1 D2]
    note w = swept_alike[OF ia(2), of nx "sweep_count (unat n) ?L"]
    show ?thesis
    proof (cases "unat n + ?L \<le> 2 ^ 32")
      case r: True
      have g1: "generate ctor nx pf peek_init peek this1 D1 n dist
                  = Some (ROCRAND_STATUS_SUCCESS,
                          (snd I1)\<lparr>m_engines :=
                             swept_engines nx (sweep_count (unat n) ?L) ?L (m_engines (snd I1))\<rparr>,
                          generate_output nx dist ?L (unat n) (m_engines (snd I1)) D1)"
        using True r by (simp add: generate_all I1_def[symmetric])
      have g2: "generate ctor nx pf peek_init peek this2 D2 n dist
                  = Some (ROCRAND_STATUS_SUCCESS,
                          (snd I2)\<lparr>m_engines :=
                             swept_engines nx (sweep_count (unat n) ?L) ?L (m_engines (snd I2))\<rparr>,
                          generate_output nx dist ?L (unat n) (m_engines (snd I2)) D2)"
        using True r ia(1) by (simp add: generate_all I2_def[symmetric])
      show ?thesis unfolding g1 g2 using o w by (simp add: observed_def)
    next
      case r: False
      have g1: "generate ctor nx pf peek_init peek this1 D1 n dist = None"
        using True r by (simp add: generate_all I1_def[symmetric])
      have g2: "generate ctor nx pf peek_init peek this2 D2 n dist = None"
        using True r ia(1) by (simp add: generate_all I2_def[symmetric])
      show ?thesis unfolding g1 g2 by (simp add: observed_def)
    qed
  qed
qed

lemma generate_normal_alike:
  assumes a: "alike pf this1 this2"
  shows "rel_option (rel_prod (alike pf) (=))
           (observed n (generate_normal ctor nx pf mk peek_init peek this1 D1 n stddev mean))
           (observed n (generate_normal ctor nx pf mk peek_init peek this2 D2 n stddev mean))"
proof -
  define I1 where "I1 = init ctor pf peek_init this1"
  define I2 where "I2 = init ctor pf peek_init this2"
  note ia = init_alike[OF a, of ctor peek_init, folded I1_def I2_def]
  let ?L = "lanes (max_blocks pf) (threads pf)"
  show ?thesis
  proof (cases "fst I1 = ROCRAND_STATUS_SUCCESS \<and> peek = hipSuccess")
    case False
    then show ?thesis
      using ia(1,2)
      by (auto simp: generate_normal_all observed_def I1_def[symmetric] I2_def[symmetric])
  next
    case True
    then have fl: "m_engines_initialized (snd I1)" using init_sets_flag[of ctor pf peek_init this1] by (simp add: I1_def)
    with ia(2) have s: "\<forall>i<?L. m_engines (snd I1) i = m_engines (snd I2) i"
      by (simp add: alike_def)
    note o = normal_output_alike[OF platform_lanes_pos s, of nx "mk mean stddev" "unat n" D1 D2]
    note w = swept_alike[OF ia(2), of nx "normal_draws (unat n) ?L"]
    show ?thesis
    proof (cases "unat n div 2 + ?L \<le> 2 ^ 32")
      case r: True
      have g1: "generate_normal ctor nx pf mk peek_init peek this1 D1 n stddev mean
                  = Some (ROCRAND_STATUS_SUCCESS,
                          (snd I1)\<lparr>m_engines :=
                             swept_engines nx (normal_draws (unat n) ?L) ?L (m_engines (snd I1))\<rparr>,
                          normal_output nx (mk mean stddev) ?L (unat n) (m_engines (snd I1)) D1)"
        using True r by (simp add: generate_normal_all I1_def[symmetric])
      have g2: "generate_normal ctor nx pf mk peek_init peek this2 D2 n stddev mean
                  = Some (ROCRAND_STATUS_SUCCESS,
                          (snd I2)\<lparr>m_engines :=
                             swept_engines nx (normal_draws (unat n) ?L) ?L (m_engines (snd I2))\<rparr>,
                          normal_output nx (mk mean stddev) ?L (unat n) (m_engines (snd I2)) D2)"
        using True r ia(1) by (simp add: generate_normal_all I2_def[symmetric])
      show ?thesis unfolding g1 g2 using o w by (simp add: observed_def)
    next
      case r: False
      have g1: "generate_normal ctor nx pf mk peek_init peek this1 D1 n stddev mean = None"
        using True r by (simp add: generate_normal_all I1_def[symmetric])
      have g2: "generate_normal ctor nx pf mk peek_init peek this2 D2 n stddev mean = None"
        using True r ia(1) by (simp add: generate_normal_all I2_def[symmetric])
      show ?thesis unfolding g1 g2 by (simp add: observed_def)
    qed
  qed
qed

lemma poisson_alike:
  "alike pf this1 this2 \<Longrightarrow> alike pf (this1\<lparr>poisson := p\<rparr>) (this2\<lparr>poisson := p\<rparr>)"
  by (simp add: alike_def)

lemma apply_call_alike:
  assumes a: "alike (lib_platform ext) this1 this2"
    and nt: "\<And>p l. fst (lib_set_lambda ext p l) \<noteq> Some ROCRAND_STATUS_SUCCESS"
  shows "rel_option (rel_prod (alike (lib_platform ext)) (=))
           (apply_call ext c this1 D1) (apply_call ext c this2 D2)"
proof (cases c)
  case Reset
  then show ?thesis using a by (simp add: reset_def alike_def)
next
  case (Set_seed seed)
  then show ?thesis using a by (simp add: set_seed_def alike_def)
next
  case (Set_offset offset)
  then show ?thesis using a by (simp add: set_offset_def alike_def)
next
  case (Init peek)
  then show ?thesis
    using init_alike(1,2)[OF a, of "lib_engine_ctor ext" peek]
    by (cases "init (lib_engine_ctor ext) (lib_platform ext) peek this1";
        cases "init (lib_engine_ctor ext) (lib_platform ext) peek this2") simp
next
  case (Generate peek_init peek n dist)
  then show ?thesis using generate_alike[OF a] by simp
next
  case (Generate_uniform peek_init peek n)
  then show ?thesis using generate_alike[OF a] by (simp add: generate_uniform_def)
next
  case (Generate_normal peek_init peek n stddev mean)
  then show ?thesis using generate_normal_alike[OF a] by simp
next
  case (Generate_log_normal peek_init peek n stddev mean)
  then show ?thesis using generate_normal_alike[OF a] by (simp add: generate_log_normal_eq)
next
  case (Generate_poisson peek_init peek n lambda)
  have p: "poisson this1 = poisson this2" using a by (simp add: alike_def)
  obtain thrown q where sl: "lib_set_lambda ext (poisson this2) lambda = (thrown, q)"
    by (cases "lib_set_lambda ext (poisson this2) lambda")
  show ?thesis
  proof (cases thrown)
    case None
    then show ?thesis
      using Generate_poisson sl p generate_alike[OF poisson_alike[OF a, of q]]
      by (simp add: generate_poisson_def)
  next
    case (Some st)
    from nt[of "poisson this2" lambda] sl Some have "st \<noteq> ROCRAND_STATUS_SUCCESS" by simp
    then show ?thesis
      using Some Generate_poisson sl p poisson_alike[OF a, of q]
      by (simp add: generate_poisson_def observed_def)
  qed
qed

lemma run_calls_alike:
  assumes nt: "\<And>p l. fst (lib_set_lambda ext p l) \<noteq> Some ROCRAND_STATUS_SUCCESS"
    and "alike (lib_platform ext) this1 this2"
  shows "rel_option (rel_prod (alike (lib_platform ext)) (=))
           (run_calls ext calls B1 this1) (run_calls ext calls B2 this2)"
  using assms(2)
proof (induction calls arbitrary: B1 B2 this1 this2)
  case Nil
  then show ?case by simp
next
  case (Cons c cs)
  note ac = apply_call_alike[OF Cons.prems nt, of c "B1 0" "B2 0"]
  show ?case
  proof (cases "apply_call ext c this1 (B1 0)")
    case None
    with ac have "apply_call ext c this2 (B2 0) = None" by (simp add: option.rel_sel)
    with None show ?thesis by simp
  next
    case (Some r1)
    with ac obtain r2 where r2: "apply_call ext c this2 (B2 0) = Some r2"
      and rr: "rel_prod (alike (lib_platform ext)) (=) r1 r2"
      by (cases "apply_call ext c this2 (B2 0)") simp_all
    obtain t1 out1 where r1e: "r1 = (t1, out1)" by (cases r1)
    obtain t2 out2 where r2e: "r2 = (t2, out2)" by (cases r2)
    from rr r1e r2e have al: "alike (lib_platform ext) t1 t2" and oe: "out1 = out2" by simp_all
    note ih = Cons.IH[OF al, of "\<lambda>i. B1 (Suc i)" "\<lambda>i. B2 (Suc i)"]
    show ?thesis
    proof (cases "run_calls ext cs (\<lambda>i. B1 (Suc i)) t1")
      case None
      with ih have "run_calls ext cs (\<lambda>i. B2 (Suc i)) t2 = None" by (simp add: option.rel_sel)
      with None Some r2 r1e r2e show ?thesis by simp
    next
      case s1: (Some q1)
      with ih obtain q2 where q2: "run_calls ext cs (\<lambda>i. B2 (Suc i)) t2 = Some q2"
        and qq: "rel_prod (alike (lib_platform ext)) (=) q1 q2"
        by (cases "run_calls ext cs (\<lambda>i. B2 (Suc i)) t2") simp_all
      obtain u1 os1 where q1e: "q1 = (u1, os1)" by (cases q1)
      obtain u2 os2 where q2e: "q2 = (u2, os2)" by (cases q2)
      from qq q1e q2e have "alike (lib_platform ext) u1 u2" and "os1 = os2" by simp_all
      then show ?thesis using Some r2 r1e r2e s1 q2 q1e q2e oe by simp
    qed
  qed
qed

lemma run_outputs:
  assumes nt: "\<And>p l. fst (lib_set_lambda ext p l) \<noteq> Some ROCRAND_STATUS_SUCCESS"
  shows "outputs (run ext (error, mem1) poisson0 seed offset stream calls B1)
     = outputs (run ext (error, mem2) poisson0 seed offset stream calls B2)"
proof (cases "error = hipSuccess")
  case False
  then show ?thesis by (simp add: run_def outputs_def rocrand_mrg32k3a_ctor_def)
next
  case True
  let ?this1 = "\<lparr>m_seed = (if seed = 0 then lib_default_seed ext else seed), m_offset = offset,
                  m_stream = stream, m_engines_initialized = False, m_engines = mem1,
                  m_engines_size = 1024 * 256, poisson = poisson0\<rparr>"
  let ?this2 = "\<lparr>m_seed = (if seed = 0 then lib_default_seed ext else seed), m_offset = offset,
                  m_stream = stream, m_engines_initialized = False, m_engines = mem2,
                  m_engines_size = 1024 * 256, poisson = poisson0\<rparr>"
  have "alike (lib_platform ext) ?this1 ?this2" by (simp add: alike_def)
  from run_calls_alike[OF nt this, of calls B1 B2]
  have "map_option snd (run_calls ext calls B1 ?this1)
          = map_option snd (run_calls ext calls B2 ?this2)"
    by (cases "run_calls ext calls B1 ?this1"; cases "run_calls ext calls B2 ?this2") auto
  then show ?thesis using True by (simp only: run_def outputs_def ctor_closed sum.case)
qed

subsection \<open>Two runs with the stamped engine\<close>

lemma stamp_nth_state: "nth_state stamp_next (s, (l, c)) k = (s, (l, c + k))"
  by (induction k arbitrary: c) (simp_all add: stamp_next_def)

lemma stamp_nth_draw: "nth_draw stamp_next (s, (l, c)) k = (s, (l, c + k))"
  by (simp add: nth_draw_def stamp_nth_state stamp_next_def)

lemma small_lane: "i < 262144 \<Longrightarrow> unat (word_of_nat i :: 32 word) = i"
  by (simp add: unat_of_nat)

lemma sample_fields:
  "lib_default_seed sample_externals = 12345"
  "lib_engine_ctor sample_externals = stamp_ctor"
  "lib_engine_next sample_externals = stamp_next"
  "lib_platform sample_externals = HIP_PLATFORM_HCC"
  "lib_uniform_distribution sample_externals = id"
  "lib_normal_distribution sample_externals = (\<lambda>mean stddev r1 r2. (r1, r2))"
  "lib_log_normal_distribution sample_externals = (\<lambda>mean stddev r1 r2. (r2, r1))"
  "lib_set_lambda sample_externals = sample_set_lambda"
  "lib_dis sample_externals = (\<lambda>p. id)"
  by (simp_all add: sample_externals_def)

lemma upt_2: "[0..<2] = [0, 1]" by (simp add: upt_rec)

lemma upt_3: "[0..<3] = [0, 1, 2]" by (simp add: upt_rec)

lemma sample_run_reseeded:
  "\<exists>that. run sample_externals (hipSuccess, \<lambda>_. ((0, 0), (0, 0))) 0 0 5 0
       [Generate_uniform hipSuccess hipSuccess 2, Set_seed 7,
        Generate_uniform hipSuccess hipSuccess 3]
       (\<lambda>_ _. ((0, 0), (0, 0)))
     = Inr (Some (that,
         [Some (ROCRAND_STATUS_SUCCESS, [((12345, 5), (0, 0)), ((12345, 5), (1, 0))]),
          None,
          Some (ROCRAND_STATUS_SUCCESS,
                [((7, 5), (0, 0)), ((7, 5), (1, 0)), ((7, 5), (2, 0))])]))
     \<and> m_engines_initialized that \<and> m_seed that = 7 \<and> m_offset that = 5
     \<and> m_engines that 2 = ((7, 5), (2, 1)) \<and> m_engines that 3 = ((7, 5), (3, 0))"
  by (simp add: run_def ctor_closed sample_fields observed_def generate_uniform_def generate_all
        init_closed lanes_def set_seed_def Let_def upt_2 upt_3 generate_output_def
        pool_after_init_def swept_engines_def sweep_count_def stamp_ctor_def stamp_nth_draw
        stamp_nth_state small_lane cong: if_cong)

lemma sample_run_mixed:
  "outputs (run sample_externals (hipSuccess, \<lambda>_. ((1, 1), (1, 1))) 0 0 5 0
       [Generate_normal hipSuccess hipSuccess 3 ((0, 0), (0, 0)) ((0, 0), (0, 0)),
        Generate_poisson hipSuccess hipSuccess 2 4,
        Generate_poisson hipSuccess hipSuccess 2 0,
        Generate_uniform hipSuccess (hipError 1) 2]
       (\<lambda>_ _. ((2, 2), (2, 2))))
     = Inr (Some
         [Some (ROCRAND_STATUS_SUCCESS,
                [((12345, 5), (0, 0)), ((12345, 5), (0, 1)), ((12345, 5), (0, 2))]),
          Some (ROCRAND_STATUS_SUCCESS, [((12345, 5), (0, 4)), ((12345, 5), (1, 0))]),
          Some (ROCRAND_STATUS_other 104, []),
          Some (ROCRAND_STATUS_LAUNCH_FAILURE, [])])"
  by (simp add: outputs_def run_def ctor_closed sample_fields observed_def generate_uniform_def
        generate_all generate_normal_all generate_poisson_def sample_set_lambda_def
        init_closed lanes_def Let_def upt_2 upt_3 generate_output_def normal_output_def
        pair_slot_def pair_draw_def normal_draws_def
        pool_after_init_def swept_engines_def sweep_count_def stamp_ctor_def stamp_nth_draw
        stamp_nth_state small_lane cong: if_cong)

section \<open>Properties\<close>

subsection \<open>The stored seed\<close>

text \<open>
  C4. The stored seed is never zero: the constructor called with seed 0 and \<open>set_seed\<close>
  called with 0 store the default seed constant (a non-zero value) instead, and any
  non-zero seed is stored as it is.
\<close>

theorem seed_never_zero:
  assumes "default_seed \<noteq> 0"
  shows "(fst hipMalloc_result = hipSuccess \<longrightarrow>
            (\<exists>this. rocrand_mrg32k3a_ctor default_seed hipMalloc_result poisson0 seed offset stream
                      = Inr this
                  \<and> m_seed this = (if seed = 0 then default_seed else seed)
                  \<and> m_seed this \<noteq> 0))
       \<and> (fst hipMalloc_result \<noteq> hipSuccess \<longrightarrow>
            rocrand_mrg32k3a_ctor default_seed hipMalloc_result poisson0 seed offset stream
              = Inl ROCRAND_STATUS_ALLOCATION_FAILED)
       \<and> m_seed (set_seed default_seed seed that) = (if seed = 0 then default_seed else seed)
       \<and> m_seed (set_seed default_seed seed that) \<noteq> 0"
  using assms
  by (auto simp: rocrand_mrg32k3a_ctor_def set_seed_def Let_def)

theorem seed_never_zero_witness:
  "(\<exists>this. rocrand_mrg32k3a_ctor 12345 (hipSuccess, \<lambda>_. ()) () 0 0 0 = Inr this
        \<and> m_seed this = 12345)
   \<and> (\<exists>this. rocrand_mrg32k3a_ctor 12345 (hipSuccess, \<lambda>_. ()) () 99 0 0 = Inr this
        \<and> m_seed this = 99)
   \<and> rocrand_mrg32k3a_ctor 12345 (hipError 2, \<lambda>_. ()) () 99 0 0
        = (Inl ROCRAND_STATUS_ALLOCATION_FAILED :: rocrand_status + (unit, unit) rocrand_mrg32k3a)
   \<and> m_seed (set_seed 12345 0 \<lparr>m_seed = 7, m_offset = 0, m_stream = 0,
            m_engines_initialized = True, m_engines = \<lambda>_. (), m_engines_size = 1024 * 256,
            poisson = ()\<rparr>) = 12345
   \<and> m_seed (set_seed 12345 99 \<lparr>m_seed = 7, m_offset = 0, m_stream = 0,
            m_engines_initialized = True, m_engines = \<lambda>_. (), m_engines_size = 1024 * 256,
            poisson = ()\<rparr>) = 99"
proof -
  have d: "(12345 :: 64 word) \<noteq> 0" by simp
  let ?that = "\<lparr>m_seed = 7, m_offset = 0, m_stream = 0,
            m_engines_initialized = True, m_engines = \<lambda>_. (), m_engines_size = 1024 * 256,
            poisson = ()\<rparr>"
  have ok: "fst (hipSuccess, \<lambda>_::nat. ()) = hipSuccess" by simp
  have ko: "fst (hipError 2, \<lambda>_::nat. ()) \<noteq> hipSuccess" by simp
  note a = seed_never_zero [OF d, of "(hipSuccess, \<lambda>_. ())" "()" 0 0 0 ?that]
  note b = seed_never_zero [OF d, of "(hipSuccess, \<lambda>_. ())" "()" 99 0 0 ?that]
  note c = seed_never_zero [OF d, of "(hipError 2, \<lambda>_. ())" "()" 99 0 0 ?that]
  from a[THEN conjunct1, THEN mp, OF ok] obtain this1 where
    "rocrand_mrg32k3a_ctor 12345 (hipSuccess, \<lambda>_. ()) () 0 0 0 = Inr this1"
    "m_seed this1 = (if (0::64 word) = 0 then 12345 else 0)"
    by (elim exE conjE)
  then have c1: "\<exists>this. rocrand_mrg32k3a_ctor 12345 (hipSuccess, \<lambda>_. ()) () 0 0 0 = Inr this
        \<and> m_seed this = 12345"
    by (intro exI[of _ this1]) simp
  from b[THEN conjunct1, THEN mp, OF ok] obtain this2 where
    "rocrand_mrg32k3a_ctor 12345 (hipSuccess, \<lambda>_. ()) () 99 0 0 = Inr this2"
    "m_seed this2 = (if (99::64 word) = 0 then 12345 else 99)"
    by (elim exE conjE)
  then have c2: "\<exists>this. rocrand_mrg32k3a_ctor 12345 (hipSuccess, \<lambda>_. ()) () 99 0 0 = Inr this
        \<and> m_seed this = 99"
    by (intro exI[of _ this2]) simp
  note c3 = c[THEN conjunct2, THEN conjunct1, THEN mp, OF ko]
  have c4: "m_seed (set_seed 12345 0 ?that) = 12345"
    using a[THEN conjunct2, THEN conjunct2, THEN conjunct1] by simp
  have c5: "m_seed (set_seed 12345 99 ?that) = 99"
    using b[THEN conjunct2, THEN conjunct2, THEN conjunct1] by simp
  show ?thesis using c1 c2 c3 c4 c5 by (intro conjI)
qed

subsection \<open>Poisson generation\<close>

text \<open>
  C7. \<open>generate_poisson\<close> first calls \<open>set_lambda\<close> on the Poisson manager. If
  \<open>set_lambda\<close> throws a status, \<open>generate_poisson\<close> returns that status, and neither
  the pool, nor the initialized flag, nor the output buffer changes: nothing is launched.
  If \<open>set_lambda\<close> succeeds, the result is that of \<open>generate\<close> (the 1:1 protocol) with
  the manager's functor.
\<close>

theorem generate_poisson_dispatch:
  "(set_lambda (poisson this) lambda = (Some status, poisson') \<longrightarrow>
      generate_poisson engine_ctor engine_next pf set_lambda dis peek_init peek
          this data data_size lambda
        = Some (status, this\<lparr>poisson := poisson'\<rparr>, data)
      \<and> m_engines (this\<lparr>poisson := poisson'\<rparr>) = m_engines this
      \<and> m_engines_initialized (this\<lparr>poisson := poisson'\<rparr>) = m_engines_initialized this)
   \<and> (set_lambda (poisson this) lambda = (None, poisson') \<longrightarrow>
      generate_poisson engine_ctor engine_next pf set_lambda dis peek_init peek
          this data data_size lambda
        = generate engine_ctor engine_next pf peek_init peek (this\<lparr>poisson := poisson'\<rparr>)
            data data_size (dis poisson'))"
  by (simp add: generate_poisson_def)

theorem generate_poisson_dispatch_witness:
  "generate_poisson label_ctor label_next HIP_PLATFORM_HCC sample_set_lambda
       (\<lambda>p r. fst r + nat p) hipSuccess hipSuccess fresh_generator (\<lambda>_. 0) 4 (- 1)
     = Some (ROCRAND_STATUS_other 104, fresh_generator, \<lambda>_. 0)
   \<and> generate_poisson label_ctor label_next HIP_PLATFORM_HCC sample_set_lambda
       (\<lambda>p r. fst r + nat p) hipSuccess hipSuccess fresh_generator (\<lambda>_. 0) 4 3
     = generate label_ctor label_next HIP_PLATFORM_HCC hipSuccess hipSuccess
         (fresh_generator\<lparr>poisson := 3\<rparr>) (\<lambda>_. 0) 4 (\<lambda>r. fst r + 3)"
proof -
  have f: "sample_set_lambda (poisson fresh_generator) (- 1)
             = (Some (ROCRAND_STATUS_other 104), 0)"
    by (simp add: sample_set_lambda_def fresh_generator_def)
  have s: "sample_set_lambda (poisson fresh_generator) 3 = (None, 3)"
    by (simp add: sample_set_lambda_def)
  have p0: "fresh_generator\<lparr>poisson := 0\<rparr> = fresh_generator"
    by (simp add: fresh_generator_def)
  note a = generate_poisson_dispatch[where set_lambda = sample_set_lambda
      and this = fresh_generator and lambda = "- 1" and status = "ROCRAND_STATUS_other 104"
      and poisson' = 0 and engine_ctor = label_ctor and engine_next = label_next
      and pf = HIP_PLATFORM_HCC and dis = "\<lambda>p r. fst r + nat p" and peek_init = hipSuccess
      and peek = hipSuccess and data = "\<lambda>_. 0" and data_size = 4]
  note b = generate_poisson_dispatch[where set_lambda = sample_set_lambda
      and this = fresh_generator and lambda = 3 and status = "ROCRAND_STATUS_other 104"
      and poisson' = 3 and engine_ctor = label_ctor and engine_next = label_next
      and pf = HIP_PLATFORM_HCC and dis = "\<lambda>p r. fst r + nat p" and peek_init = hipSuccess
      and peek = hipSuccess and data = "\<lambda>_. 0" and data_size = 4]
  have c1: "generate_poisson label_ctor label_next HIP_PLATFORM_HCC sample_set_lambda
       (\<lambda>p r. fst r + nat p) hipSuccess hipSuccess fresh_generator (\<lambda>_. 0) 4 (- 1)
     = Some (ROCRAND_STATUS_other 104, fresh_generator, \<lambda>_. 0)"
    using a[THEN conjunct1, THEN mp, OF f, THEN conjunct1] by (simp only: p0)
  have c2: "generate_poisson label_ctor label_next HIP_PLATFORM_HCC sample_set_lambda
       (\<lambda>p r. fst r + nat p) hipSuccess hipSuccess fresh_generator (\<lambda>_. 0) 4 3
     = generate label_ctor label_next HIP_PLATFORM_HCC hipSuccess hipSuccess
         (fresh_generator\<lparr>poisson := 3\<rparr>) (\<lambda>_. 0) 4 (\<lambda>r. fst r + 3)"
    using b[THEN conjunct2, THEN mp, OF s] by simp
  show ?thesis using c1 c2 by (intro conjI)
qed

subsection \<open>The frame of a lane\<close>



subsection \<open>Lazy initialization\<close>

text \<open>
  C5, as the code has it. \<open>init\<close> returns success and changes nothing when the pool is
  already initialized. Otherwise it launches \<open>init_engines_kernel\<close> with the launch
  configuration of the platform: when the launch succeeds, the pool entries below the
  number of launched lanes hold the engines constructed from the current seed, their own
  index and the current offset, the other entries are unchanged, and the flag is set;
  when the launch fails, \<open>init\<close> returns \<open>ROCRAND_STATUS_LAUNCH_FAILURE\<close> and the generator
  (flag and pool) is unchanged, so that the next call launches again. The launched lanes
  are the whole pool of \<open>1024 * 256\<close> engines by default and the first 16384 engines
  under \<open>__HIP_PLATFORM_NVCC__\<close>.
\<close>

theorem init_lazy:
  "(m_engines_initialized this \<longrightarrow>
      init ctor pf peek this = (ROCRAND_STATUS_SUCCESS, this))
 \<and> (\<not> m_engines_initialized this \<and> peek = hipSuccess \<longrightarrow>
      init ctor pf peek this =
        (ROCRAND_STATUS_SUCCESS,
         this\<lparr>m_engines :=
                 (\<lambda>i. if i < lanes (max_blocks pf) (threads pf)
                      then ctor (m_seed this) (word_of_nat i) (m_offset this)
                      else m_engines this i),
              m_engines_initialized := True\<rparr>))
 \<and> (\<not> m_engines_initialized this \<and> peek \<noteq> hipSuccess \<longrightarrow>
      init ctor pf peek this = (ROCRAND_STATUS_LAUNCH_FAILURE, this)
      \<and> init ctor pf hipSuccess (snd (init ctor pf peek this)) =
        (ROCRAND_STATUS_SUCCESS,
         this\<lparr>m_engines :=
                 (\<lambda>i. if i < lanes (max_blocks pf) (threads pf)
                      then ctor (m_seed this) (word_of_nat i) (m_offset this)
                      else m_engines this i),
              m_engines_initialized := True\<rparr>))
 \<and> lanes (max_blocks HIP_PLATFORM_HCC) (threads HIP_PLATFORM_HCC) = 1024 * 256
 \<and> lanes (max_blocks HIP_PLATFORM_NVCC) (threads HIP_PLATFORM_NVCC) = 16384"
  by (simp add: init_closed pool_after_init_def lanes_def)

theorem init_lazy_witness:
  "init label_ctor HIP_PLATFORM_HCC hipSuccess (fresh_generator\<lparr>m_engines_initialized := True\<rparr>)
     = (ROCRAND_STATUS_SUCCESS, fresh_generator\<lparr>m_engines_initialized := True\<rparr>)
   \<and> init label_ctor HIP_PLATFORM_HCC hipSuccess fresh_generator
     = (ROCRAND_STATUS_SUCCESS,
        fresh_generator\<lparr>m_engines := (\<lambda>i. if i < 262144 then (i, 0) else (0, 0)),
                         m_engines_initialized := True\<rparr>)
   \<and> init label_ctor HIP_PLATFORM_HCC (hipError 1) fresh_generator
     = (ROCRAND_STATUS_LAUNCH_FAILURE, fresh_generator)
   \<and> init label_ctor HIP_PLATFORM_HCC hipSuccess
         (snd (init label_ctor HIP_PLATFORM_HCC (hipError 1) fresh_generator))
     = (ROCRAND_STATUS_SUCCESS,
        fresh_generator\<lparr>m_engines := (\<lambda>i. if i < 262144 then (i, 0) else (0, 0)),
                         m_engines_initialized := True\<rparr>)"
proof -
  note a = init_lazy[where this = "fresh_generator\<lparr>m_engines_initialized := True\<rparr>"
      and ctor = label_ctor and pf = HIP_PLATFORM_HCC and peek = hipSuccess]
  note b = init_lazy[where this = fresh_generator
      and ctor = label_ctor and pf = HIP_PLATFORM_HCC and peek = hipSuccess]
  note c = init_lazy[where this = fresh_generator
      and ctor = label_ctor and pf = HIP_PLATFORM_HCC and peek = "hipError 1"]
  have f: "\<not> m_engines_initialized fresh_generator" by (simp add: fresh_generator_def)
  have pool: "(\<lambda>i. if i < lanes (max_blocks HIP_PLATFORM_HCC) (threads HIP_PLATFORM_HCC)
                   then label_ctor (m_seed fresh_generator) (word_of_nat i) (m_offset fresh_generator)
                   else m_engines fresh_generator i)
              = (\<lambda>i. if i < 262144 then (i, 0) else (0, 0))"
  proof (rule ext)
    fix i :: nat
    have "i < 262144 \<Longrightarrow> unat (word_of_nat i :: 32 word) = i" by (simp add: unat_of_nat)
    then show "(if i < lanes (max_blocks HIP_PLATFORM_HCC) (threads HIP_PLATFORM_HCC)
                   then label_ctor (m_seed fresh_generator) (word_of_nat i) (m_offset fresh_generator)
                   else m_engines fresh_generator i)
              = (if i < 262144 then (i, 0) else (0, 0))"
      by (simp add: lanes_def label_ctor_def fresh_generator_def)
  qed
  have c1: "init label_ctor HIP_PLATFORM_HCC hipSuccess (fresh_generator\<lparr>m_engines_initialized := True\<rparr>)
     = (ROCRAND_STATUS_SUCCESS, fresh_generator\<lparr>m_engines_initialized := True\<rparr>)"
    using a[THEN conjunct1] by simp
  have c2: "init label_ctor HIP_PLATFORM_HCC hipSuccess fresh_generator
     = (ROCRAND_STATUS_SUCCESS,
        fresh_generator\<lparr>m_engines := (\<lambda>i. if i < 262144 then (i, 0) else (0, 0)),
                         m_engines_initialized := True\<rparr>)"
    using b[THEN conjunct2, THEN conjunct1] f by (simp only: pool simp_thms)
  have ne: "hipError 1 \<noteq> hipSuccess" by simp
  note c' = c[THEN conjunct2, THEN conjunct2, THEN conjunct1, THEN mp, OF conjI[OF f ne]]
  have c3: "init label_ctor HIP_PLATFORM_HCC (hipError 1) fresh_generator
     = (ROCRAND_STATUS_LAUNCH_FAILURE, fresh_generator)"
    by (rule c'[THEN conjunct1])
  have c4: "init label_ctor HIP_PLATFORM_HCC hipSuccess
         (snd (init label_ctor HIP_PLATFORM_HCC (hipError 1) fresh_generator))
     = (ROCRAND_STATUS_SUCCESS,
        fresh_generator\<lparr>m_engines := (\<lambda>i. if i < 262144 then (i, 0) else (0, 0)),
                         m_engines_initialized := True\<rparr>)"
    using c'[THEN conjunct2] by (simp only: pool)
  show ?thesis using c1 c2 c3 c4 by (intro conjI)
qed

text \<open>
  C5 as stated says that the launch covers the full pool. Under
  \<open>__HIP_PLATFORM_NVCC__\<close> it does not: \<open>init\<close> succeeds and sets the flag, and entry 16384
  of the pool of 262144 engines still holds what the allocation held.
\<close>

theorem init_full_pool_counterexample:
  "16384 < unat (m_engines_size fresh_generator)
   \<and> fst (init label_ctor HIP_PLATFORM_NVCC hipSuccess fresh_generator) = ROCRAND_STATUS_SUCCESS
   \<and> m_engines_initialized (snd (init label_ctor HIP_PLATFORM_NVCC hipSuccess fresh_generator))
   \<and> m_engines (snd (init label_ctor HIP_PLATFORM_NVCC hipSuccess fresh_generator)) 16384
        = m_engines fresh_generator 16384
   \<and> m_engines (snd (init label_ctor HIP_PLATFORM_NVCC hipSuccess fresh_generator)) 16384
        \<noteq> label_ctor (m_seed fresh_generator) 16384 (m_offset fresh_generator)"
  by (simp add: init_closed pool_after_init_def lanes_def fresh_generator_def label_ctor_def)

subsection \<open>Output sizes beyond 32 bits\<close>

text \<open>
  C2 at the output size \<open>n = 2 ^ 32\<close>. The claim gives every output slot \<open>k < n\<close> its
  value after a call of the 1:1 protocol. At \<open>n = 2 ^ 32\<close>, with both launches accepted,
  \<open>generate\<close> never has a result: the comparison \<open>index < n\<close> of \<open>generate_kernel\<close> holds
  for every value of the \<open>unsigned int index\<close>.
\<close>

theorem generate_hangs_at_4G:
  "generate ctor nx pf hipSuccess hipSuccess this data (2 ^ 32) dist = None"
proof -
  have u: "(2::nat) ^ 32 \<le> unat (2 ^ 32 :: 64 word)" by simp
  have k: "\<And>E. generate_kernel nx (max_blocks pf) (threads pf) E data (2 ^ 32) dist = None"
    by (rule generate_kernel_never_returns[OF platform_lanes_pos u])
  show ?thesis
    by (simp add: generate_def init_closed k[simplified])
qed

text \<open>
  C3 at \<open>n = 2 ^ 33\<close>. The claim has the main sweep of the pairing protocol cover
  \<open>n / 2\<close> paired positions and then lane 0 handle the tail. At \<open>n = 2 ^ 33\<close>, with both
  launches accepted, \<open>generate_normal\<close> never has a result: \<open>index < n / 2\<close> holds for
  every value of the \<open>unsigned int index\<close> of \<open>generate_normal_kernel\<close>.
\<close>

theorem generate_normal_hangs_at_8G:
  "generate_normal ctor nx pf mk_distribution hipSuccess hipSuccess this data (2 ^ 33)
     stddev mean = None"
proof -
  have u: "(2::nat) ^ 32 \<le> unat (2 ^ 33 :: 64 word) div 2" by simp
  have k: "\<And>E d. generate_normal_kernel nx (max_blocks pf) (threads pf) E data (2 ^ 33) d = None"
    by (rule generate_normal_kernel_never_returns[OF platform_lanes_pos u])
  show ?thesis
    by (simp add: generate_normal_def init_closed Let_def k[simplified])
qed

subsection \<open>Splitting a request into two calls\<close>

text \<open>
  C1, as the code has it. Let \<open>k \<le> n\<close>, let \<open>n\<close> plus the number of lanes be at most
  \<open>2 ^ 32\<close>, and let \<open>k\<close> be a multiple of the number of lanes, or \<open>k = n\<close>. Then a call of
  \<open>generate\<close> for \<open>k\<close> values followed by a call for \<open>n - k\<close> values returns, and the
  concatenation of the two output buffers is the output buffer of a single call for \<open>n\<close>
  values on the same generator: slot \<open>j\<close> holds the functor applied to draw number
  \<open>j div lanes\<close> of lane \<open>j mod lanes\<close>. The initial contents of the buffers do not matter.
\<close>

theorem split_call_at_lane_multiple:
  assumes kn: "k \<le> n"
    and r: "unat n + lanes (max_blocks pf) (threads pf) \<le> 2 ^ 32"
    and al: "lanes (max_blocks pf) (threads pf) dvd unat k \<or> k = n"
  shows "two_calls ctor nx pf this data1 data2 k n dist = one_call ctor nx pf this data n dist
       \<and> one_call ctor nx pf this data n dist =
           Some (map (\<lambda>j. dist (nth_draw nx
                   (m_engines (snd (init ctor pf hipSuccess this))
                      (j mod lanes (max_blocks pf) (threads pf)))
                   (j div lanes (max_blocks pf) (threads pf)))) [0..<unat n])"
proof -
  let ?L = "lanes (max_blocks pf) (threads pf)"
  let ?E = "m_engines (ready ctor pf this)"
  let ?o = "\<lambda>j. dist (nth_draw nx (?E (j mod ?L)) (j div ?L))"
  have ukn: "unat k \<le> unat n" using kn by (simp only: word_le_nat_alt)
  have usub: "unat (n - k) = unat n - unat k" using kn by (rule unat_sub)
  have rk: "unat k + ?L \<le> 2 ^ 32" using ukn r by arith
  have rn: "unat (n - k) + ?L \<le> 2 ^ 32" using usub r by arith
  note one = one_call_closed[OF r, of ctor nx this data dist]
  note two = two_calls_closed[OF rk rn, of ctor nx this data1 data2 dist]
  have lists: "map ?o [0..<unat k]
          @ map (\<lambda>j. dist (nth_draw nx (?E (j mod ?L))
                   (sweep_count (unat k) ?L (j mod ?L) + j div ?L))) [0..<unat (n - k)]
        = map ?o [0..<unat n]"
  proof (cases "k = n")
    case True
    then have "unat (n - k) = 0" by simp
    then show ?thesis using True by simp
  next
    case False
    with al have d: "?L dvd unat k" by simp
    have sh: "map (\<lambda>j. dist (nth_draw nx (?E (j mod ?L))
                   (sweep_count (unat k) ?L (j mod ?L) + j div ?L))) [0..<unat (n - k)]
            = map ?o [unat k..<unat (n - k) + unat k]"
      by (rule shifted_outputs[OF platform_lanes_pos d,
                 of "\<lambda>e c. dist (nth_draw nx e c)" ?E "unat (n - k)"])
    have e: "unat (n - k) + unat k = unat n" using usub ukn by arith
    have e': "unat k + (unat n - unat k) = unat n" using ukn by arith
    have "[0..<unat k + (unat n - unat k)] = [0..<unat k] @ [unat k..<unat k + (unat n - unat k)]"
      by (rule upt_add_eq_append) (rule le0)
    then have ap: "[0..<unat n] = [0..<unat k] @ [unat k..<unat n]" by (simp only: e')
    have "map ?o [0..<unat n] = map ?o [0..<unat k] @ map ?o [unat k..<unat n]"
      by (simp only: ap[symmetric] map_append[symmetric])
    then show ?thesis by (simp only: sh e)
  qed
  have t: "two_calls ctor nx pf this data1 data2 k n dist = Some (map ?o [0..<unat n])"
    by (simp only: two lists)
  show ?thesis
    using one t by (simp only: ready_def simp_thms)
qed

theorem split_call_at_lane_multiple_witness:
  "two_calls label_ctor label_next HIP_PLATFORM_HCC fresh_generator (\<lambda>_. (9, 9)) (\<lambda>_. (8, 8))
       262144 262146 id
     = one_call label_ctor label_next HIP_PLATFORM_HCC fresh_generator (\<lambda>_. (7, 7)) 262146 id
   \<and> two_calls label_ctor label_next HIP_PLATFORM_HCC fresh_generator (\<lambda>_. (9, 9)) (\<lambda>_. (8, 8))
       3 3 id
     = one_call label_ctor label_next HIP_PLATFORM_HCC fresh_generator (\<lambda>_. (7, 7)) 3 id"
proof -
  have h1: "(262144 :: 64 word) \<le> 262146" by simp
  have h2: "unat (262146 :: 64 word) + lanes (max_blocks HIP_PLATFORM_HCC) (threads HIP_PLATFORM_HCC)
              \<le> 2 ^ 32"
    by (simp add: lanes_def)
  have h3: "lanes (max_blocks HIP_PLATFORM_HCC) (threads HIP_PLATFORM_HCC) dvd unat (262144 :: 64 word)
              \<or> (262144 :: 64 word) = 262146"
    by (simp add: lanes_def)
  have g1: "(3 :: 64 word) \<le> 3" by simp
  have g2: "unat (3 :: 64 word) + lanes (max_blocks HIP_PLATFORM_HCC) (threads HIP_PLATFORM_HCC)
              \<le> 2 ^ 32"
    by (simp add: lanes_def)
  have g3: "lanes (max_blocks HIP_PLATFORM_HCC) (threads HIP_PLATFORM_HCC) dvd unat (3 :: 64 word)
              \<or> (3 :: 64 word) = 3"
    by simp
  note a = split_call_at_lane_multiple[OF h1 h2 h3, of label_ctor label_next fresh_generator
             "\<lambda>_. (9, 9)" "\<lambda>_. (8, 8)" id "\<lambda>_. (7, 7)", THEN conjunct1]
  note b = split_call_at_lane_multiple[OF g1 g2 g3, of label_ctor label_next fresh_generator
             "\<lambda>_. (9, 9)" "\<lambda>_. (8, 8)" id "\<lambda>_. (7, 7)", THEN conjunct1]
  show ?thesis using a b by (intro conjI)
qed

text \<open>
  C1 as stated allows every split point \<open>k \<le> n\<close>. With \<open>n = 2\<close> and \<open>k = 1\<close> on a fresh
  generator of the default platform and the labelled engine, the single call gives the
  first draws of lanes 0 and 1, while the second of the two calls starts again at lane 0
  and gives its second draw.
\<close>

theorem split_call_counterexample:
  "one_call label_ctor label_next HIP_PLATFORM_HCC fresh_generator (\<lambda>_. (9, 9)) 2 id
     = Some [(0, 0), (1, 0)]
   \<and> two_calls label_ctor label_next HIP_PLATFORM_HCC fresh_generator (\<lambda>_. (9, 9)) (\<lambda>_. (9, 9))
       1 2 id
     = Some [(0, 0), (0, 1)]
   \<and> (1 :: 64 word) \<le> 2
   \<and> one_call label_ctor label_next HIP_PLATFORM_HCC fresh_generator (\<lambda>_. (9, 9)) 2 id
     \<noteq> two_calls label_ctor label_next HIP_PLATFORM_HCC fresh_generator (\<lambda>_. (9, 9))
         (\<lambda>_. (9, 9)) 1 2 id"
proof -
  let ?L = "lanes (max_blocks HIP_PLATFORM_HCC) (threads HIP_PLATFORM_HCC)"
  have L: "?L = 262144" by (simp add: lanes_def)
  have r2: "unat (2 :: 64 word) + ?L \<le> 2 ^ 32" by (simp add: lanes_def)
  have r1: "unat (1 :: 64 word) + ?L \<le> 2 ^ 32" by (simp add: lanes_def)
  have r1': "unat (2 - 1 :: 64 word) + ?L \<le> 2 ^ 32" by (simp add: lanes_def)
  have u2: "[0..<unat (2 :: 64 word)] = [0, 1]" by (simp add: upt_rec)
  have u1: "[0..<unat (1 :: 64 word)] = [0]" by (simp add: upt_rec)
  have u1': "[0..<unat (2 - 1 :: 64 word)] = [0]" by (simp add: upt_rec)
  have sc: "sweep_count (Suc 0) 262144 0 = Suc 0" by (simp add: sweep_count_def)
  have c1: "one_call label_ctor label_next HIP_PLATFORM_HCC fresh_generator (\<lambda>_. (9, 9)) 2 id
     = Some [(0, 0), (1, 0)]"
    by (simp only: one_call_closed[OF r2] u2 L fresh_pool) (simp add: label_nth_draw)
  have c2: "two_calls label_ctor label_next HIP_PLATFORM_HCC fresh_generator (\<lambda>_. (9, 9)) (\<lambda>_. (9, 9))
       1 2 id
     = Some [(0, 0), (0, 1)]"
    by (simp only: two_calls_closed[OF r1 r1'] u1 u1' L fresh_pool)
       (simp add: label_nth_draw sc)
  show ?thesis using c1 c2 by simp
qed

subsection \<open>Continuation of the substreams\<close>



subsection \<open>The flag and the pool\<close>

text \<open>
  C6. \<open>set_seed\<close> and \<open>set_offset\<close> store the new value (the default seed for seed 0) and
  clear \<open>m_engines_initialized\<close>, \<open>reset\<close> clears the flag only; each leaves every other
  member as it was, the pool \<open>m_engines\<close> and \<open>m_engines_size\<close> included. Consequently,
  in every state that a generator reaches from its constructor by any sequence of calls
  of its operations (whatever the runtime answers to the launches, and whatever the
  pool and the buffers held), \<open>engines_current\<close> holds: if the flag is set, the state of
  every launched lane is the one constructed from the current seed and offset, advanced
  by the draws taken since. Such states exist: when the allocation succeeds and every
  call fits, the run returns.
\<close>

theorem initialized_means_current:
  "set_seed d seed this
     = this\<lparr>m_seed := (if seed = 0 then d else seed), m_engines_initialized := False\<rparr>
   \<and> set_offset offset this = this\<lparr>m_offset := offset, m_engines_initialized := False\<rparr>
   \<and> reset this = this\<lparr>m_engines_initialized := False\<rparr>
   \<and> (\<forall>that outs.
        run ext hipMalloc_result poisson0 seed0 offset0 stream calls buffers
          = Inr (Some (that, outs))
        \<longrightarrow> engines_current ext that)
   \<and> (fst hipMalloc_result = hipSuccess \<and> (\<forall>c \<in> set calls. call_fits (lib_platform ext) c)
        \<longrightarrow> (\<exists>that outs. run ext hipMalloc_result poisson0 seed0 offset0 stream calls buffers
                            = Inr (Some (that, outs))))"
proof (intro conjI allI impI)
  show "set_seed d seed this
     = this\<lparr>m_seed := (if seed = 0 then d else seed), m_engines_initialized := False\<rparr>"
    by (simp add: set_seed_def)
  show "set_offset offset this = this\<lparr>m_offset := offset, m_engines_initialized := False\<rparr>"
    by (simp add: set_offset_def)
  show "reset this = this\<lparr>m_engines_initialized := False\<rparr>"
    by (simp add: reset_def)
next
  fix that outs
  assume "run ext hipMalloc_result poisson0 seed0 offset0 stream calls buffers
            = Inr (Some (that, outs))"
  then show "engines_current ext that" by (rule run_current)
next
  assume "fst hipMalloc_result = hipSuccess \<and> (\<forall>c \<in> set calls. call_fits (lib_platform ext) c)"
  then have "fst hipMalloc_result = hipSuccess"
    and "\<forall>c \<in> set calls. call_fits (lib_platform ext) c" by simp_all
  then show "\<exists>that outs. run ext hipMalloc_result poisson0 seed0 offset0 stream calls buffers
                            = Inr (Some (that, outs))"
    by (rule run_returns)
qed

text \<open>
  A run with the stamped engine: two values, then \<open>set_seed 7\<close>, then three values. The
  second generation call starts the substreams of seed 7 from their beginning; the flag
  is set afterwards and the pool holds the states of seed 7, lane 2 after one draw and
  lane 3 after none.
\<close>

theorem initialized_means_current_witness:
  "\<exists>that outs.
     run sample_externals (hipSuccess, \<lambda>_. ((0, 0), (0, 0))) 0 0 5 0
       [Generate_uniform hipSuccess hipSuccess 2, Set_seed 7,
        Generate_uniform hipSuccess hipSuccess 3]
       (\<lambda>_ _. ((0, 0), (0, 0)))
     = Inr (Some (that, outs))
     \<and> outs = [Some (ROCRAND_STATUS_SUCCESS, [((12345, 5), (0, 0)), ((12345, 5), (1, 0))]),
               None,
               Some (ROCRAND_STATUS_SUCCESS,
                     [((7, 5), (0, 0)), ((7, 5), (1, 0)), ((7, 5), (2, 0))])]
     \<and> m_engines_initialized that \<and> m_seed that = 7 \<and> m_offset that = 5
     \<and> m_engines that 2 = ((7, 5), (2, 1)) \<and> m_engines that 3 = ((7, 5), (3, 0))
     \<and> engines_current sample_externals that"
proof -
  let ?calls = "[Generate_uniform hipSuccess hipSuccess 2, Set_seed 7,
                 Generate_uniform hipSuccess hipSuccess 3]
                :: ((nat \<times> nat) \<times> (nat \<times> nat), (nat \<times> nat) \<times> (nat \<times> nat), int) call list"
  let ?m = "(hipSuccess, \<lambda>_ :: nat. ((0 :: nat, 0 :: nat), (0 :: nat, 0 :: nat)))"
  let ?b = "\<lambda>(_ :: nat) (_ :: nat). ((0 :: nat, 0 :: nat), (0 :: nat, 0 :: nat))"
  note t = initialized_means_current[where ext = sample_externals and hipMalloc_result = ?m
             and ?poisson0.0 = 0 and ?seed0.0 = 0 and ?offset0.0 = 5 and stream = 0
             and calls = ?calls and buffers = ?b]
  have fits: "fst ?m = hipSuccess \<and> (\<forall>c \<in> set ?calls. call_fits (lib_platform sample_externals) c)"
    by (simp add: sample_fields lanes_def)
  from t[THEN conjunct2, THEN conjunct2, THEN conjunct2, THEN conjunct2, THEN mp, OF fits]
  obtain that outs where r: "run sample_externals ?m 0 0 5 0 ?calls ?b = Inr (Some (that, outs))"
    by blast
  from t[THEN conjunct2, THEN conjunct2, THEN conjunct2, THEN conjunct1, THEN spec, THEN spec,
         THEN mp, OF r]
  have c: "engines_current sample_externals that" .
  from sample_run_reseeded obtain that' where
    r': "run sample_externals ?m 0 0 5 0 ?calls ?b
           = Inr (Some (that',
               [Some (ROCRAND_STATUS_SUCCESS, [((12345, 5), (0, 0)), ((12345, 5), (1, 0))]),
                None,
                Some (ROCRAND_STATUS_SUCCESS,
                      [((7, 5), (0, 0)), ((7, 5), (1, 0)), ((7, 5), (2, 0))])]))"
    and f: "m_engines_initialized that'" "m_seed that' = 7" "m_offset that' = 5"
      "m_engines that' 2 = ((7, 5), (2, 1))" "m_engines that' 3 = ((7, 5), (3, 0))"
    by (elim exE conjE)
  from r r' have e: "that' = that"
    and o: "outs = [Some (ROCRAND_STATUS_SUCCESS, [((12345, 5), (0, 0)), ((12345, 5), (1, 0))]),
                None,
                Some (ROCRAND_STATUS_SUCCESS,
                      [((7, 5), (0, 0)), ((7, 5), (1, 0)), ((7, 5), (2, 0))])]"
    by simp_all
  show ?thesis
    using r o f[unfolded e] c by (intro exI conjI)
qed

subsection \<open>Determinism\<close>

text \<open>
  C9. Two runs of the same program (the same seed, offset, platform and sequence of
  calls, and the same answers of the runtime) observe the same statuses and the same
  output buffers for every call, also when one of the kernels of both never finishes;
  the runs may differ in what the fresh pool allocation and the output buffers held
  before. The Poisson manager is assumed not to throw \<open>ROCRAND_STATUS_SUCCESS\<close> (a call
  that did would return success without a launch). When the allocation succeeds and
  every call fits, the run returns.
\<close>

theorem outputs_deterministic:
  assumes "\<And>p l. fst (lib_set_lambda ext p l) \<noteq> Some ROCRAND_STATUS_SUCCESS"
  shows "outputs (run ext (error, mem1) poisson0 seed offset stream calls buffers1)
           = outputs (run ext (error, mem2) poisson0 seed offset stream calls buffers2)
       \<and> (error = hipSuccess \<and> (\<forall>c \<in> set calls. call_fits (lib_platform ext) c)
            \<longrightarrow> (\<exists>outs. outputs (run ext (error, mem1) poisson0 seed offset stream calls buffers1)
                          = Inr (Some outs)))"
proof (intro conjI impI)
  show "outputs (run ext (error, mem1) poisson0 seed offset stream calls buffers1)
           = outputs (run ext (error, mem2) poisson0 seed offset stream calls buffers2)"
    using assms by (rule run_outputs)
next
  assume "error = hipSuccess \<and> (\<forall>c \<in> set calls. call_fits (lib_platform ext) c)"
  then have "\<exists>that outs. run ext (error, mem1) poisson0 seed offset stream calls buffers1
                          = Inr (Some (that, outs))"
    by (intro run_returns) simp_all
  then show "\<exists>outs. outputs (run ext (error, mem1) poisson0 seed offset stream calls buffers1)
                          = Inr (Some outs)"
    by (auto simp: outputs_def)
qed

text \<open>
  Two runs with the stamped engine on pools and buffers of different content: three
  normal values (the pair of lane 0 and the odd tail), two Poisson values, a Poisson
  call whose lambda the manager refuses, and a call whose launch the runtime refuses.
\<close>

theorem outputs_deterministic_witness:
  "outputs (run sample_externals (hipSuccess, \<lambda>_. ((1, 1), (1, 1))) 0 0 5 0
       [Generate_normal hipSuccess hipSuccess 3 ((0, 0), (0, 0)) ((0, 0), (0, 0)),
        Generate_poisson hipSuccess hipSuccess 2 4,
        Generate_poisson hipSuccess hipSuccess 2 0,
        Generate_uniform hipSuccess (hipError 1) 2]
       (\<lambda>_ _. ((2, 2), (2, 2))))
     = outputs (run sample_externals (hipSuccess, \<lambda>_. ((3, 3), (3, 3))) 0 0 5 0
       [Generate_normal hipSuccess hipSuccess 3 ((0, 0), (0, 0)) ((0, 0), (0, 0)),
        Generate_poisson hipSuccess hipSuccess 2 4,
        Generate_poisson hipSuccess hipSuccess 2 0,
        Generate_uniform hipSuccess (hipError 1) 2]
       (\<lambda>_ _. ((4, 4), (4, 4))))
   \<and> outputs (run sample_externals (hipSuccess, \<lambda>_. ((3, 3), (3, 3))) 0 0 5 0
       [Generate_normal hipSuccess hipSuccess 3 ((0, 0), (0, 0)) ((0, 0), (0, 0)),
        Generate_poisson hipSuccess hipSuccess 2 4,
        Generate_poisson hipSuccess hipSuccess 2 0,
        Generate_uniform hipSuccess (hipError 1) 2]
       (\<lambda>_ _. ((4, 4), (4, 4))))
     = Inr (Some
         [Some (ROCRAND_STATUS_SUCCESS,
                [((12345, 5), (0, 0)), ((12345, 5), (0, 1)), ((12345, 5), (0, 2))]),
          Some (ROCRAND_STATUS_SUCCESS, [((12345, 5), (0, 4)), ((12345, 5), (1, 0))]),
          Some (ROCRAND_STATUS_other 104, []),
          Some (ROCRAND_STATUS_LAUNCH_FAILURE, [])])"
proof -
  let ?calls = "[Generate_normal hipSuccess hipSuccess 3 ((0, 0), (0, 0)) ((0, 0), (0, 0)),
        Generate_poisson hipSuccess hipSuccess 2 4,
        Generate_poisson hipSuccess hipSuccess 2 0,
        Generate_uniform hipSuccess (hipError 1) 2]
        :: ((nat \<times> nat) \<times> (nat \<times> nat), (nat \<times> nat) \<times> (nat \<times> nat), int) call list"
  have nt: "\<And>p l. fst (lib_set_lambda sample_externals p l) \<noteq> Some ROCRAND_STATUS_SUCCESS"
    by (simp add: sample_fields sample_set_lambda_def)
  have fits: "hipSuccess = hipSuccess
                \<and> (\<forall>c \<in> set ?calls. call_fits (lib_platform sample_externals) c)"
    by (simp add: sample_fields lanes_def)
  note t = outputs_deterministic[OF nt, where error = hipSuccess
             and ?mem1.0 = "\<lambda>_. ((1, 1), (1, 1))" and ?mem2.0 = "\<lambda>_. ((3, 3), (3, 3))"
             and ?poisson0.0 = 0 and seed = 0 and offset = 5 and stream = 0 and calls = ?calls
             and ?buffers1.0 = "\<lambda>_ _. ((2, 2), (2, 2))" and ?buffers2.0 = "\<lambda>_ _. ((4, 4), (4, 4))"]
  from t[THEN conjunct2, THEN mp, OF fits] obtain outs where
    "outputs (run sample_externals (hipSuccess, \<lambda>_. ((1, 1), (1, 1))) 0 0 5 0 ?calls
                (\<lambda>_ _. ((2, 2), (2, 2)))) = Inr (Some outs)" by blast
  note e = t[THEN conjunct1]
  show ?thesis
    by (intro conjI) (rule e, simp only: e[symmetric] sample_run_mixed)
qed

end
